theory Spec2Isabelle
  imports Main
begin

section \<open>Rigid\_mesh\_collision\_detection: the scene registry\<close>

text \<open>
  A shallow embedding of the class \<^verbatim>\<open>Rigid_mesh_collision_detection\<close> of
  \<^verbatim>\<open>Rigid_mesh_collision_detection.h\<close>. The class is a template over its mesh and
  kernel types and calls into other CGAL headers (the AABB tree, the side-of-mesh oracle,
  the bounding boxes). Those collaborators are parameters of the model: a record of
  functions, one field for each external function the class calls.
\<close>

subsection \<open>External collaborators\<close>

text \<open>The result of \<^verbatim>\<open>Side_of_triangle_mesh::operator()\<close> (\<^verbatim>\<open>CGAL::Bounded_side\<close>).\<close>

datatype Bounded_side = ON_UNBOUNDED_SIDE | ON_BOUNDARY | ON_BOUNDED_SIDE

text \<open>
  A \<^verbatim>\<open>Tree\<close> is built once over the faces of one mesh; its traits object carries the
  rigid transformation that \<^verbatim>\<open>traits().set_transformation\<close> stores and
  \<^verbatim>\<open>traits().transformation()\<close> reads.
\<close>

record ('mesh, 'tr) Tree =
  tree_mesh :: 'mesh
  transformation :: 'tr

text \<open>
  The functions of other headers that the class calls: \<^verbatim>\<open>is_closed(tm)\<close>,
  \<^verbatim>\<open>vertices(tm)\<close>, \<^verbatim>\<open>get(boost::vertex_point, tm, v)\<close>, the application of an
  \<^verbatim>\<open>Aff_transformation_3\<close> to a point, \<^verbatim>\<open>Tree::do_intersect\<close>, the oracle
  \<^verbatim>\<open>Side_of_tm\<close> built from a tree, the default \<^verbatim>\<open>Bbox_3()\<close>,
  \<^verbatim>\<open>internal::get_tree_bbox\<close> and \<^verbatim>\<open>do_overlap\<close> on two boxes. The field
  \<open>identity\<close> is the transformation a freshly built tree carries.
\<close>

record ('mesh, 'v, 'pt, 'tr, 'bbox) externals =
  is_closed :: "'mesh \<Rightarrow> bool"
  vertices :: "'mesh \<Rightarrow> 'v list"
  vertex_point :: "'mesh \<Rightarrow> 'v \<Rightarrow> 'pt"
  identity :: 'tr
  transform :: "'tr \<Rightarrow> 'pt \<Rightarrow> 'pt"
  do_intersect :: "('mesh, 'tr) Tree \<Rightarrow> ('mesh, 'tr) Tree \<Rightarrow> bool"
  Side_of_tm :: "('mesh, 'tr) Tree \<Rightarrow> 'pt \<Rightarrow> Bounded_side"
  Bbox_3 :: 'bbox
  get_tree_bbox :: "('mesh, 'tr) Tree \<Rightarrow> 'bbox"
  do_overlap :: "'bbox \<Rightarrow> 'bbox \<Rightarrow> bool"

text \<open>
  Modelled from the spec: the constructor \<^verbatim>\<open>Tree(faces(tm).begin(), faces(tm).end(), tm)\<close>
  of \<^verbatim>\<open>AABB_tree\<close> over \<^verbatim>\<open>AABB_do_intersect_transform_traits\<close>, which is not part of
  this header. The spec says the index is built once over the faces of the surface and that
  the transformation of an entry is the identity by default.
\<close>

definition new_Tree :: "('mesh, 'v, 'pt, 'tr, 'bbox) externals \<Rightarrow> 'mesh \<Rightarrow> ('mesh, 'tr) Tree" where
  "new_Tree E tm = \<lparr>tree_mesh = tm, transformation = identity E\<rparr>"

subsection \<open>The registry\<close>

text \<open>
  The data members of the class. A mesh pointer is modelled by the (immutable) mesh it
  points to, a tree pointer by the tree it owns. \<open>m_bboxes_is_invalid\<close> and \<open>m_bboxes\<close>
  exist only when \<^verbatim>\<open>CGAL_CACHE_BOXES\<close> is non-zero; every operation takes the macro as
  its first argument \<open>cache\<close> and leaves both fields alone when it is \<open>False\<close> (the default
  of the header).
\<close>

record ('mesh, 'tr, 'bbox) registry =
  m_triangle_mesh_ptrs :: "'mesh list"
  m_aabb_trees :: "('mesh, 'tr) Tree list"
  m_is_closed :: "bool list"
  m_bboxes_is_invalid :: "bool list"
  m_bboxes :: "'bbox list"

text \<open>The members before the constructor's body runs: every vector is empty.\<close>

definition empty_registry :: "('mesh, 'tr, 'bbox) registry" where
  "empty_registry =
     \<lparr>m_triangle_mesh_ptrs = [], m_aabb_trees = [], m_is_closed = [],
      m_bboxes_is_invalid = [], m_bboxes = []\<rparr>"

text \<open>
  Undefined behaviour of the C++ is a value of the model: an index past the end of a vector,
  and the dereference of \<^verbatim>\<open>begin()\<close> of an empty vertex range.
\<close>

datatype undefined_behaviour = Index_out_of_range | Empty_range_dereferenced

text \<open>What a call hands back to its caller; \<open>Void\<close> for a function declared \<^verbatim>\<open>void\<close>.\<close>

datatype 'a returned = Void | Returned 'a

definition clear_trees :: "('mesh, 'tr, 'bbox) registry \<Rightarrow> ('mesh, 'tr, 'bbox) registry" where
  "clear_trees st = st\<lparr>m_aabb_trees := []\<rparr>"

text \<open>One round of the \<^verbatim>\<open>BOOST_FOREACH\<close> loop of \<^verbatim>\<open>init\<close>.\<close>

definition init_step ::
  "('mesh, 'v, 'pt, 'tr, 'bbox) externals \<Rightarrow> 'mesh \<Rightarrow> ('mesh, 'tr, 'bbox) registry
     \<Rightarrow> ('mesh, 'tr, 'bbox) registry" where
  "init_step E tm st =
     (let st1 = (if is_closed E tm
                 then st\<lparr>m_is_closed := (m_is_closed st)[length (m_triangle_mesh_ptrs st) := True]\<rparr>
                 else st);
          st2 = st1\<lparr>m_triangle_mesh_ptrs := m_triangle_mesh_ptrs st1 @ [tm]\<rparr>
      in st2\<lparr>m_aabb_trees := m_aabb_trees st2 @ [new_Tree E tm]\<rparr>)"

definition init ::
  "bool \<Rightarrow> ('mesh, 'v, 'pt, 'tr, 'bbox) externals \<Rightarrow> 'mesh list \<Rightarrow> ('mesh, 'tr, 'bbox) registry
     \<Rightarrow> ('mesh, 'tr, 'bbox) registry" where
  "init cache E triangle_meshes st =
     (let nb_meshes = length triangle_meshes;
          st1 = (clear_trees (st\<lparr>m_triangle_mesh_ptrs := []\<rparr>))
                  \<lparr>m_is_closed := replicate nb_meshes False\<rparr>;
          st2 = (if cache
                 then st1\<lparr>m_bboxes_is_invalid := replicate nb_meshes True,
                          m_bboxes := replicate nb_meshes (Bbox_3 E)\<rparr>
                 else st1)
      in fold (init_step E) triangle_meshes st2)"

text \<open>\<^verbatim>\<open>void add_mesh(const TriangleMesh& tm)\<close>: the new state, and nothing returned.\<close>

definition add_mesh ::
  "bool \<Rightarrow> ('mesh, 'v, 'pt, 'tr, 'bbox) externals \<Rightarrow> 'mesh \<Rightarrow> ('mesh, 'tr, 'bbox) registry
     \<Rightarrow> nat returned \<times> ('mesh, 'tr, 'bbox) registry" where
  "add_mesh cache E tm st =
     (let st1 = st\<lparr>m_is_closed := m_is_closed st @ [is_closed E tm]\<rparr>;
          st2 = st1\<lparr>m_triangle_mesh_ptrs := m_triangle_mesh_ptrs st1 @ [tm]\<rparr>;
          st3 = st2\<lparr>m_aabb_trees := m_aabb_trees st2 @ [new_Tree E tm]\<rparr>
      in (Void,
          if cache
          then st3\<lparr>m_bboxes := m_bboxes st3 @ [Bbox_3 E],
                   m_bboxes_is_invalid := m_bboxes_is_invalid st3 @ [True]\<rparr>
          else st3))"

text \<open>\<^verbatim>\<open>v.erase(v.begin() + i)\<close> on a vector, for \<open>i\<close> in range.\<close>

definition erase :: "nat \<Rightarrow> 'a list \<Rightarrow> 'a list" where
  "erase i xs = take i xs @ drop (Suc i) xs"

text \<open>
  \<^verbatim>\<open>remove_mesh\<close> checks its argument against the size of \<open>m_triangle_mesh_ptrs\<close> only; the
  other vectors have the same length in every state the class can be in (\<open>stores_aligned\<close>
  below), so each \<open>erase\<close> is in range once the check has passed.
\<close>

definition remove_mesh ::
  "bool \<Rightarrow> nat \<Rightarrow> ('mesh, 'tr, 'bbox) registry \<Rightarrow> ('mesh, 'tr, 'bbox) registry" where
  "remove_mesh cache mesh_id st =
     (if mesh_id \<ge> length (m_triangle_mesh_ptrs st) then st
      else
        let st1 = st\<lparr>m_triangle_mesh_ptrs := erase mesh_id (m_triangle_mesh_ptrs st)\<rparr>;
            st2 = st1\<lparr>m_aabb_trees := erase mesh_id (m_aabb_trees st1)\<rparr>;
            st3 = st2\<lparr>m_is_closed := erase mesh_id (m_is_closed st2)\<rparr>
        in if cache
           then st3\<lparr>m_bboxes := butlast (m_bboxes st3),
                    m_bboxes_is_invalid := replicate (length (m_triangle_mesh_ptrs st3)) True\<rparr>
           else st3)"

text \<open>
  \<^verbatim>\<open>set_transformation\<close> does not check its argument: \<^verbatim>\<open>m_aabb_trees[mesh_id]\<close> past the
  end is undefined behaviour, and so is \<^verbatim>\<open>m_bboxes_is_invalid.set(mesh_id)\<close>.
\<close>

definition set_transformation ::
  "bool \<Rightarrow> nat \<Rightarrow> 'tr \<Rightarrow> ('mesh, 'tr, 'bbox) registry
     \<Rightarrow> undefined_behaviour + ('mesh, 'tr, 'bbox) registry" where
  "set_transformation cache mesh_id aff_trans st =
     (if mesh_id \<ge> length (m_aabb_trees st) then Inl Index_out_of_range
      else
        let st1 = st\<lparr>m_aabb_trees :=
                      (m_aabb_trees st)[mesh_id := (m_aabb_trees st ! mesh_id)\<lparr>transformation := aff_trans\<rparr>]\<rparr>
        in if cache
           then (if mesh_id \<ge> length (m_bboxes_is_invalid st1) then Inl Index_out_of_range
                 else Inr (st1\<lparr>m_bboxes_is_invalid := (m_bboxes_is_invalid st1)[mesh_id := True]\<rparr>))
           else Inr st1)"

text \<open>
  The positions \<^verbatim>\<open>find_first()\<close> and \<^verbatim>\<open>find_next(i)\<close> enumerate: the set bits, ascending.
\<close>

definition set_bits :: "bool list \<Rightarrow> nat list" where
  "set_bits bs = filter (\<lambda>i. bs ! i) [0..<length bs]"

text \<open>
  \<^verbatim>\<open>update_bboxes\<close> (compiled only with the cache): every box whose bit is set is recomputed
  from its tree, then all bits are reset. The header starts the loop at
  \<^verbatim>\<open>m_bboxes.find_first()\<close>; \<open>m_bboxes\<close> is a \<^verbatim>\<open>std::vector\<close>, which has no such member, so
  the start is read as \<^verbatim>\<open>m_bboxes_is_invalid.find_first()\<close>, the bitset the loop's test
  and step name. The writes are in range in every state with \<open>stores_aligned\<close>.
\<close>

definition update_bboxes ::
  "('mesh, 'v, 'pt, 'tr, 'bbox) externals \<Rightarrow> ('mesh, 'tr, 'bbox) registry
     \<Rightarrow> ('mesh, 'tr, 'bbox) registry" where
  "update_bboxes E st =
     st\<lparr>m_bboxes :=
          fold (\<lambda>i bb. bb[i := get_tree_bbox E (m_aabb_trees st ! i)])
            (set_bits (m_bboxes_is_invalid st)) (m_bboxes st),
        m_bboxes_is_invalid := replicate (length (m_bboxes_is_invalid st)) False\<rparr>"

text \<open>
  The loop of \<^verbatim>\<open>get_all_intersections\<close> over the positions \<open>k\<close> still to visit, with the
  result vector \<open>res\<close> so far. Reading \<^verbatim>\<open>m_aabb_trees[mesh_id]\<close> past the end is undefined
  behaviour.
\<close>

fun intersections_loop ::
  "bool \<Rightarrow> ('mesh, 'v, 'pt, 'tr, 'bbox) externals \<Rightarrow> ('mesh, 'tr, 'bbox) registry \<Rightarrow> nat
     \<Rightarrow> nat list \<Rightarrow> nat list \<Rightarrow> undefined_behaviour + nat list" where
  "intersections_loop cache E st mesh_id [] res = Inr res"
| "intersections_loop cache E st mesh_id (k # ks) res =
     (if k = mesh_id then intersections_loop cache E st mesh_id ks res
      else if mesh_id \<ge> length (m_aabb_trees st) then Inl Index_out_of_range
      else if cache \<and> \<not> do_overlap E (m_bboxes st ! k) (m_bboxes st ! mesh_id)
        then intersections_loop cache E st mesh_id ks res
      else if do_intersect E (m_aabb_trees st ! k) (m_aabb_trees st ! mesh_id)
        then intersections_loop cache E st mesh_id ks (res @ [k])
      else intersections_loop cache E st mesh_id ks res)"

definition get_all_intersections ::
  "bool \<Rightarrow> ('mesh, 'v, 'pt, 'tr, 'bbox) externals \<Rightarrow> nat \<Rightarrow> ('mesh, 'tr, 'bbox) registry
     \<Rightarrow> undefined_behaviour + (nat list \<times> ('mesh, 'tr, 'bbox) registry)" where
  "get_all_intersections cache E mesh_id st =
     (let st1 = (if cache then update_bboxes E st else st)
      in case intersections_loop cache E st1 mesh_id [0..<length (m_aabb_trees st1)] [] of
           Inl e \<Rightarrow> Inl e
         | Inr res \<Rightarrow> Inr (res, st1))"

definition set_transformation_and_get_all_intersections ::
  "bool \<Rightarrow> ('mesh, 'v, 'pt, 'tr, 'bbox) externals \<Rightarrow> nat \<Rightarrow> 'tr \<Rightarrow> ('mesh, 'tr, 'bbox) registry
     \<Rightarrow> undefined_behaviour + (nat list \<times> ('mesh, 'tr, 'bbox) registry)" where
  "set_transformation_and_get_all_intersections cache E mesh_id aff_trans st =
     (case set_transformation cache mesh_id aff_trans st of
        Inl e \<Rightarrow> Inl e
      | Inr st1 \<Rightarrow> get_all_intersections cache E mesh_id st1)"

text \<open>
  \<^verbatim>\<open>get(boost::vertex_point, tm, *boost::begin(vertices(tm)))\<close>: the point of the first
  vertex; undefined behaviour on a mesh without vertices.
\<close>

definition first_vertex_point ::
  "('mesh, 'v, 'pt, 'tr, 'bbox) externals \<Rightarrow> 'mesh \<Rightarrow> undefined_behaviour + 'pt" where
  "first_vertex_point E tm =
     (case vertices E tm of
        [] \<Rightarrow> Inl Empty_range_dereferenced
      | v # _ \<Rightarrow> Inr (vertex_point E tm v))"

text \<open>
  One nesting probe: the side-of oracle of the tree at position \<open>a\<close>, asked about the first
  vertex of the mesh at position \<open>b\<close> mapped by the transformation of the tree at \<open>b\<close>.
\<close>

definition probe ::
  "('mesh, 'v, 'pt, 'tr, 'bbox) externals \<Rightarrow> ('mesh, 'tr, 'bbox) registry \<Rightarrow> nat \<Rightarrow> nat
     \<Rightarrow> undefined_behaviour + Bounded_side" where
  "probe E st a b =
     (case first_vertex_point E (m_triangle_mesh_ptrs st ! b) of
        Inl e \<Rightarrow> Inl e
      | Inr q \<Rightarrow>
          Inr (Side_of_tm E (m_aabb_trees st ! a)
                 (transform E (transformation (m_aabb_trees st ! b)) q)))"

text \<open>The second block of the \<^verbatim>\<open>else\<close> branch: \<^verbatim>\<open>if (m_is_closed[k]) ...\<close>.\<close>

definition reverse_probe ::
  "('mesh, 'v, 'pt, 'tr, 'bbox) externals \<Rightarrow> ('mesh, 'tr, 'bbox) registry \<Rightarrow> nat \<Rightarrow> nat
     \<Rightarrow> undefined_behaviour + bool" where
  "reverse_probe E st mesh_id k =
     (if m_is_closed st ! k
      then (case probe E st k mesh_id of
              Inl e \<Rightarrow> Inl e
            | Inr s \<Rightarrow> Inr (s = ON_BOUNDED_SIDE))
      else Inr False)"

text \<open>
  The whole \<^verbatim>\<open>else\<close> branch for a pair whose trees do not intersect: \<open>Inr True\<close> when
  \<^verbatim>\<open>(k, true)\<close> is pushed. The \<^verbatim>\<open>continue\<close> after the first push skips the second block.
\<close>

definition nesting_probes ::
  "('mesh, 'v, 'pt, 'tr, 'bbox) externals \<Rightarrow> ('mesh, 'tr, 'bbox) registry \<Rightarrow> nat \<Rightarrow> nat
     \<Rightarrow> undefined_behaviour + bool" where
  "nesting_probes E st mesh_id k =
     (if m_is_closed st ! mesh_id
      then (case probe E st mesh_id k of
              Inl e \<Rightarrow> Inl e
            | Inr s \<Rightarrow> if s = ON_BOUNDED_SIDE then Inr True else reverse_probe E st mesh_id k)
      else reverse_probe E st mesh_id k)"

fun inclusions_loop ::
  "bool \<Rightarrow> ('mesh, 'v, 'pt, 'tr, 'bbox) externals \<Rightarrow> ('mesh, 'tr, 'bbox) registry \<Rightarrow> nat
     \<Rightarrow> nat list \<Rightarrow> (nat \<times> bool) list \<Rightarrow> undefined_behaviour + (nat \<times> bool) list" where
  "inclusions_loop cache E st mesh_id [] res = Inr res"
| "inclusions_loop cache E st mesh_id (k # ks) res =
     (if k = mesh_id then inclusions_loop cache E st mesh_id ks res
      else if mesh_id \<ge> length (m_aabb_trees st) then Inl Index_out_of_range
      else if cache \<and> \<not> do_overlap E (m_bboxes st ! k) (m_bboxes st ! mesh_id)
        then inclusions_loop cache E st mesh_id ks res
      else if do_intersect E (m_aabb_trees st ! k) (m_aabb_trees st ! mesh_id)
        then inclusions_loop cache E st mesh_id ks (res @ [(k, False)])
      else (case nesting_probes E st mesh_id k of
              Inl e \<Rightarrow> Inl e
            | Inr b \<Rightarrow>
                inclusions_loop cache E st mesh_id ks (if b then res @ [(k, True)] else res)))"

definition get_all_intersections_and_inclusions ::
  "bool \<Rightarrow> ('mesh, 'v, 'pt, 'tr, 'bbox) externals \<Rightarrow> nat \<Rightarrow> ('mesh, 'tr, 'bbox) registry
     \<Rightarrow> undefined_behaviour + ((nat \<times> bool) list \<times> ('mesh, 'tr, 'bbox) registry)" where
  "get_all_intersections_and_inclusions cache E mesh_id st =
     (let st1 = (if cache then update_bboxes E st else st)
      in case inclusions_loop cache E st1 mesh_id [0..<length (m_aabb_trees st1)] [] of
           Inl e \<Rightarrow> Inl e
         | Inr res \<Rightarrow> Inr (res, st1))"

definition set_transformation_and_get_all_intersections_and_inclusions ::
  "bool \<Rightarrow> ('mesh, 'v, 'pt, 'tr, 'bbox) externals \<Rightarrow> nat \<Rightarrow> 'tr \<Rightarrow> ('mesh, 'tr, 'bbox) registry
     \<Rightarrow> undefined_behaviour + ((nat \<times> bool) list \<times> ('mesh, 'tr, 'bbox) registry)" where
  "set_transformation_and_get_all_intersections_and_inclusions cache E mesh_id aff_trans st =
     (case set_transformation cache mesh_id aff_trans st of
        Inl e \<Rightarrow> Inl e
      | Inr st1 \<Rightarrow> get_all_intersections_and_inclusions cache E mesh_id st1)"

subsection \<open>Sequences of calls\<close>

text \<open>The mutating calls a client can make, and a run of them one after the other.\<close>

datatype ('mesh, 'tr) operation =
  Init "'mesh list"
| Add_mesh 'mesh
| Remove_mesh nat
| Set_transformation nat 'tr

fun apply_operation ::
  "bool \<Rightarrow> ('mesh, 'v, 'pt, 'tr, 'bbox) externals \<Rightarrow> ('mesh, 'tr) operation
     \<Rightarrow> ('mesh, 'tr, 'bbox) registry \<Rightarrow> undefined_behaviour + ('mesh, 'tr, 'bbox) registry" where
  "apply_operation cache E (Init triangle_meshes) st = Inr (init cache E triangle_meshes st)"
| "apply_operation cache E (Add_mesh tm) st = Inr (snd (add_mesh cache E tm st))"
| "apply_operation cache E (Remove_mesh mesh_id) st = Inr (remove_mesh cache mesh_id st)"
| "apply_operation cache E (Set_transformation mesh_id aff_trans) st =
     set_transformation cache mesh_id aff_trans st"

fun run_operations ::
  "bool \<Rightarrow> ('mesh, 'v, 'pt, 'tr, 'bbox) externals \<Rightarrow> ('mesh, 'tr) operation list
     \<Rightarrow> ('mesh, 'tr, 'bbox) registry \<Rightarrow> undefined_behaviour + ('mesh, 'tr, 'bbox) registry" where
  "run_operations cache E [] st = Inr st"
| "run_operations cache E (x # xs) st =
     (case apply_operation cache E x st of
        Inl e \<Rightarrow> Inl e
      | Inr st1 \<Rightarrow> run_operations cache E xs st1)"

text \<open>
  The calls a client can make between two queries: a mutating call, or a query, whose
  result is dropped here and which with the cache leaves refreshed boxes behind.
\<close>

datatype ('mesh, 'tr) call =
  Mutation "('mesh, 'tr) operation"
| Intersections_query nat
| Inclusions_query nat

fun apply_call ::
  "bool \<Rightarrow> ('mesh, 'v, 'pt, 'tr, 'bbox) externals \<Rightarrow> ('mesh, 'tr) call
     \<Rightarrow> ('mesh, 'tr, 'bbox) registry \<Rightarrow> undefined_behaviour + ('mesh, 'tr, 'bbox) registry" where
  "apply_call cache E (Mutation x) st = apply_operation cache E x st"
| "apply_call cache E (Intersections_query mesh_id) st =
     (case get_all_intersections cache E mesh_id st of
        Inl e \<Rightarrow> Inl e
      | Inr (res, st1) \<Rightarrow> Inr st1)"
| "apply_call cache E (Inclusions_query mesh_id) st =
     (case get_all_intersections_and_inclusions cache E mesh_id st of
        Inl e \<Rightarrow> Inl e
      | Inr (res, st1) \<Rightarrow> Inr st1)"

fun run_calls ::
  "bool \<Rightarrow> ('mesh, 'v, 'pt, 'tr, 'bbox) externals \<Rightarrow> ('mesh, 'tr) call list
     \<Rightarrow> ('mesh, 'tr, 'bbox) registry \<Rightarrow> undefined_behaviour + ('mesh, 'tr, 'bbox) registry" where
  "run_calls cache E [] st = Inr st"
| "run_calls cache E (c # cs) st =
     (case apply_call cache E c st of
        Inl e \<Rightarrow> Inl e
      | Inr st1 \<Rightarrow> run_calls cache E cs st1)"

subsection \<open>Invariants and the notions the properties are stated with\<close>

text \<open>The parallel stores have one length (with the cache: the boxes and their bits too).\<close>

definition stores_aligned :: "bool \<Rightarrow> ('mesh, 'tr, 'bbox) registry \<Rightarrow> bool" where
  "stores_aligned cache st =
     (length (m_aabb_trees st) = length (m_triangle_mesh_ptrs st) \<and>
      length (m_is_closed st) = length (m_triangle_mesh_ptrs st) \<and>
      (cache \<longrightarrow>
         length (m_bboxes st) = length (m_triangle_mesh_ptrs st) \<and>
         length (m_bboxes_is_invalid st) = length (m_triangle_mesh_ptrs st)))"

text \<open>Every cached box whose bit is clear is the box of its tree as it stands.\<close>

definition boxes_current ::
  "('mesh, 'v, 'pt, 'tr, 'bbox) externals \<Rightarrow> ('mesh, 'tr, 'bbox) registry \<Rightarrow> bool" where
  "boxes_current E st =
     list_all (\<lambda>k. m_bboxes_is_invalid st ! k \<or> m_bboxes st ! k = get_tree_bbox E (m_aabb_trees st ! k))
       [0..<length (m_aabb_trees st)]"

text \<open>
  The state of a registry between two calls: aligned stores, every tree built over the mesh
  registered at its position, and (with the cache) current boxes.
\<close>

definition registry_inv ::
  "bool \<Rightarrow> ('mesh, 'v, 'pt, 'tr, 'bbox) externals \<Rightarrow> ('mesh, 'tr, 'bbox) registry \<Rightarrow> bool" where
  "registry_inv cache E st =
     (stores_aligned cache st \<and>
      map tree_mesh (m_aabb_trees st) = m_triangle_mesh_ptrs st \<and>
      (cache \<longrightarrow> boxes_current E st))"

text \<open>
  The overlap test of the registry on two trees (sections 4.1 and 4.2 of the spec): the
  traversal \<open>do_intersect\<close>, behind the box pre-filter when the cache is compiled in.
\<close>

definition reports_overlap ::
  "bool \<Rightarrow> ('mesh, 'v, 'pt, 'tr, 'bbox) externals \<Rightarrow> ('mesh, 'tr) Tree \<Rightarrow> ('mesh, 'tr) Tree \<Rightarrow> bool" where
  "reports_overlap cache E a b =
     ((cache \<longrightarrow> do_overlap E (get_tree_bbox E a) (get_tree_bbox E b)) \<and> do_intersect E a b)"

text \<open>What one round of the loop of \<^verbatim>\<open>get_all_intersections_and_inclusions\<close> appends.\<close>

definition round_result ::
  "bool \<Rightarrow> ('mesh, 'v, 'pt, 'tr, 'bbox) externals \<Rightarrow> ('mesh, 'tr, 'bbox) registry \<Rightarrow> nat \<Rightarrow> nat
     \<Rightarrow> undefined_behaviour + (nat \<times> bool) list" where
  "round_result cache E st mesh_id k =
     (if k = mesh_id then Inr []
      else if cache \<and> \<not> do_overlap E (m_bboxes st ! k) (m_bboxes st ! mesh_id) then Inr []
      else if do_intersect E (m_aabb_trees st ! k) (m_aabb_trees st ! mesh_id) then Inr [(k, False)]
      else (case nesting_probes E st mesh_id k of
              Inl e \<Rightarrow> Inl e
            | Inr b \<Rightarrow> Inr (if b then [(k, True)] else [])))"

text \<open>
  The box pre-filter is sound for the overlap test: boxes that do not overlap belong to
  trees that do not intersect.
\<close>

definition box_filter_sound :: "('mesh, 'v, 'pt, 'tr, 'bbox) externals \<Rightarrow> bool" where
  "box_filter_sound E =
     (\<forall>a b. \<not> do_overlap E (get_tree_bbox E a) (get_tree_bbox E b) \<longrightarrow> \<not> do_intersect E a b)"

text \<open>
  The first vertex of the mesh at position \<open>b\<close>, mapped by the transformation of the tree at
  \<open>b\<close>, is on the bounded side of the tree at position \<open>a\<close>. A mesh without vertices has
  no such vertex.
\<close>

definition first_vertex_inside ::
  "('mesh, 'v, 'pt, 'tr, 'bbox) externals \<Rightarrow> ('mesh, 'tr, 'bbox) registry \<Rightarrow> nat \<Rightarrow> nat \<Rightarrow> bool" where
  "first_vertex_inside E st a b =
     (case vertices E (m_triangle_mesh_ptrs st ! b) of
        [] \<Rightarrow> False
      | v # vs \<Rightarrow>
          Side_of_tm E (m_aabb_trees st ! a)
            (transform E (transformation (m_aabb_trees st ! b))
               (vertex_point E (m_triangle_mesh_ptrs st ! b) v)) = ON_BOUNDED_SIDE)"

text \<open>
  For every pair that the box test rejects at position \<open>i\<close>, the nesting probes that the
  closedness flags ask for read the first vertex of a mesh that has one, and none of them
  reports inside.
\<close>

definition box_disjoint_pairs_not_nested ::
  "('mesh, 'v, 'pt, 'tr, 'bbox) externals \<Rightarrow> ('mesh, 'tr, 'bbox) registry \<Rightarrow> nat \<Rightarrow> bool" where
  "box_disjoint_pairs_not_nested E st i =
     list_all
       (\<lambda>k. k = i \<or>
            do_overlap E (get_tree_bbox E (m_aabb_trees st ! k))
              (get_tree_bbox E (m_aabb_trees st ! i)) \<or>
            ((m_is_closed st ! i \<longrightarrow>
                vertices E (m_triangle_mesh_ptrs st ! k) \<noteq> [] \<and> \<not> first_vertex_inside E st i k) \<and>
             (m_is_closed st ! k \<longrightarrow>
                vertices E (m_triangle_mesh_ptrs st ! i) \<noteq> [] \<and> \<not> first_vertex_inside E st k i)))
       [0..<length (m_aabb_trees st)]"

text \<open>Two registries with the same entries, whatever their cached boxes.\<close>

definition same_entries :: "('mesh, 'tr, 'bbox) registry \<Rightarrow> ('mesh, 'tr, 'bbox) registry \<Rightarrow> bool" where
  "same_entries s t =
     (m_triangle_mesh_ptrs s = m_triangle_mesh_ptrs t \<and> m_aabb_trees s = m_aabb_trees t \<and>
      m_is_closed s = m_is_closed t)"

subsection \<open>A concrete instance of the collaborators\<close>

text \<open>
  Used to evaluate the theorems at concrete inputs. Space is the integer line and a
  transformation is a translation. A mesh is a closedness flag, the list of its vertices,
  and the list of the points its faces cover; a vertex that no face covers is isolated. A
  tree is built over the faces: two trees intersect when they share a point in world
  coordinates, and a point is strictly inside a tree when it lies strictly between two of
  the tree's world points and is none of them. A box is the list of the world points of
  the tree, and two boxes overlap when a point of one lies in the hull of the other.
\<close>

type_synonym line_mesh = "bool \<times> int list \<times> int list"

definition line_points :: "(line_mesh, int) Tree \<Rightarrow> int list" where
  "line_points t = map (\<lambda>p. p + transformation t) (snd (snd (tree_mesh t)))"

definition line_overlap :: "int list \<Rightarrow> int list \<Rightarrow> bool" where
  "line_overlap x y =
     ((\<exists>p \<in> set x. \<exists>q \<in> set x. \<exists>r \<in> set y. p \<le> r \<and> r \<le> q) \<or>
      (\<exists>p \<in> set y. \<exists>q \<in> set y. \<exists>r \<in> set x. p \<le> r \<and> r \<le> q))"

definition line_side :: "int list \<Rightarrow> int \<Rightarrow> Bounded_side" where
  "line_side ws p =
     (if p \<in> set ws then ON_BOUNDARY
      else if (\<exists>l \<in> set ws. \<exists>h \<in> set ws. l < p \<and> p < h) then ON_BOUNDED_SIDE
      else ON_UNBOUNDED_SIDE)"

definition line_externals :: "(line_mesh, int, int, int, int list) externals" where
  "line_externals =
     \<lparr>is_closed = fst, vertices = (\<lambda>tm. fst (snd tm)), vertex_point = (\<lambda>tm v. v), identity = 0,
      transform = (\<lambda>t p. p + t),
      do_intersect = (\<lambda>a b. \<exists>p \<in> set (line_points a). p \<in> set (line_points b)),
      Side_of_tm = (\<lambda>a. line_side (line_points a)),
      Bbox_3 = [], get_tree_bbox = line_points, do_overlap = line_overlap\<rparr>"

subsection \<open>A concrete scene\<close>

text \<open>
  Four segments on the line, none with an isolated vertex: a closed one, a closed one
  nested in the first, an open one that touches the first at the point 10, and an open one
  away from all others.
\<close>

definition example_meshes :: "line_mesh list" where
  "example_meshes =
     [(True, [0, 10], [0, 10]), (True, [2, 4], [2, 4]), (False, [10, 20], [10, 20]),
      (False, [30, 40], [30, 40])]"

definition example_registry :: "bool \<Rightarrow> (line_mesh, int, int list) registry" where
  "example_registry cache = init cache line_externals example_meshes empty_registry"

definition example_calls :: "(line_mesh, int) operation list" where
  "example_calls =
     [Init example_meshes, Set_transformation 1 7, Add_mesh (True, [5, 6], [5, 6]), Remove_mesh 0]"

definition example_final :: "(line_mesh, int, int list) registry" where
  "example_final =
     \<lparr>m_triangle_mesh_ptrs =
        [(True, [2, 4], [2, 4]), (False, [10, 20], [10, 20]), (False, [30, 40], [30, 40]),
         (True, [5, 6], [5, 6])],
      m_aabb_trees =
        [\<lparr>tree_mesh = (True, [2, 4], [2, 4]), transformation = 7\<rparr>,
         \<lparr>tree_mesh = (False, [10, 20], [10, 20]), transformation = 0\<rparr>,
         \<lparr>tree_mesh = (False, [30, 40], [30, 40]), transformation = 0\<rparr>,
         \<lparr>tree_mesh = (True, [5, 6], [5, 6]), transformation = 0\<rparr>],
      m_is_closed = [True, False, False, True],
      m_bboxes_is_invalid = [True, True, True, True],
      m_bboxes = [[], [], [], []]\<rparr>"

text \<open>
  The pairs at which a call \<open>get_all_intersections_and_inclusions i\<close> reads the first vertex
  of a mesh that has none: position \<open>k\<close> reaches the nesting probes, and either surface \<open>i\<close>
  is closed and mesh \<open>k\<close> has no vertex, or the first probe did not end the round, surface
  \<open>k\<close> is closed and mesh \<open>i\<close> has no vertex.
\<close>

definition unguarded_probe ::
  "bool \<Rightarrow> ('mesh, 'v, 'pt, 'tr, 'bbox) externals \<Rightarrow> ('mesh, 'tr, 'bbox) registry \<Rightarrow> nat \<Rightarrow> nat \<Rightarrow> bool" where
  "unguarded_probe cache E st i k =
     (k \<noteq> i \<and>
      (cache \<longrightarrow> do_overlap E (get_tree_bbox E (m_aabb_trees st ! k))
                   (get_tree_bbox E (m_aabb_trees st ! i))) \<and>
      \<not> do_intersect E (m_aabb_trees st ! k) (m_aabb_trees st ! i) \<and>
      ((m_is_closed st ! i \<and> vertices E (m_triangle_mesh_ptrs st ! k) = []) \<or>
       (\<not> (m_is_closed st ! i \<and> probe E st i k = Inr ON_BOUNDED_SIDE) \<and>
        m_is_closed st ! k \<and> vertices E (m_triangle_mesh_ptrs st ! i) = [])))"

text \<open>
  A scene with an isolated vertex: a closed segment around the origin, and an open mesh
  whose first vertex is isolated and lies at the origin, while its faces lie far away.
\<close>

definition stray_meshes :: "line_mesh list" where
  "stray_meshes = [(True, [- 5, 5], [- 5, 5]), (False, [0, 50, 60], [50, 60])]"

definition stray_registry :: "bool \<Rightarrow> (line_mesh, int, int list) registry" where
  "stray_registry cache = init cache line_externals stray_meshes empty_registry"

text \<open>A scene with an empty mesh: a closed segment and a mesh without any vertex.\<close>

definition hollow_meshes :: "line_mesh list" where
  "hollow_meshes = [(True, [0, 10], [0, 10]), (False, [], [])]"

definition hollow_registry :: "(line_mesh, int, int list) registry" where
  "hollow_registry = init False line_externals hollow_meshes empty_registry"

text \<open>
  A scene with a moved mesh: a closed segment, and a closed segment registered far away
  and then translated into the first.
\<close>

definition moved_meshes :: "line_mesh list" where
  "moved_meshes = [(True, [0, 10], [0, 10]), (True, [22, 24], [22, 24])]"

definition moved_calls :: "(line_mesh, int) operation list" where
  "moved_calls = [Init moved_meshes, Set_transformation 1 (- 20)]"

definition moved_registry :: "(line_mesh, int, int list) registry" where
  "moved_registry =
     \<lparr>m_triangle_mesh_ptrs = [(True, [0, 10], [0, 10]), (True, [22, 24], [22, 24])],
      m_aabb_trees =
        [\<lparr>tree_mesh = (True, [0, 10], [0, 10]), transformation = 0\<rparr>,
         \<lparr>tree_mesh = (True, [22, 24], [22, 24]), transformation = - 20\<rparr>],
      m_is_closed = [True, True],
      m_bboxes_is_invalid = [True, True],
      m_bboxes = [[], []]\<rparr>"

text \<open>
  A run that moves a mesh while the cache is warm: the example scene is queried, which
  with the cache fills every box, and then the fourth segment is translated onto the first.
\<close>

definition warm_calls :: "(line_mesh, int) call list" where
  "warm_calls =
     [Mutation (Init example_meshes), Intersections_query 0,
      Mutation (Set_transformation 3 (- 30))]"

definition warm_registry :: "bool \<Rightarrow> (line_mesh, int, int list) registry" where
  "warm_registry cache =
     \<lparr>m_triangle_mesh_ptrs =
        [(True, [0, 10], [0, 10]), (True, [2, 4], [2, 4]), (False, [10, 20], [10, 20]),
         (False, [30, 40], [30, 40])],
      m_aabb_trees =
        [\<lparr>tree_mesh = (True, [0, 10], [0, 10]), transformation = 0\<rparr>,
         \<lparr>tree_mesh = (True, [2, 4], [2, 4]), transformation = 0\<rparr>,
         \<lparr>tree_mesh = (False, [10, 20], [10, 20]), transformation = 0\<rparr>,
         \<lparr>tree_mesh = (False, [30, 40], [30, 40]), transformation = - 30\<rparr>],
      m_is_closed = [True, True, False, False],
      m_bboxes_is_invalid = (if cache then [False, False, False, True] else []),
      m_bboxes = (if cache then [[0, 10], [2, 4], [10, 20], [30, 40]] else [])\<rparr>"

section \<open>Invariants of the registry\<close>

lemma fold_init_step:
  "m_triangle_mesh_ptrs (fold (init_step E) tms st) = m_triangle_mesh_ptrs st @ tms"
  "m_aabb_trees (fold (init_step E) tms st) = m_aabb_trees st @ map (new_Tree E) tms"
  "length (m_is_closed (fold (init_step E) tms st)) = length (m_is_closed st)"
  "m_bboxes (fold (init_step E) tms st) = m_bboxes st"
  "m_bboxes_is_invalid (fold (init_step E) tms st) = m_bboxes_is_invalid st"
  by (induction tms arbitrary: st; simp add: init_step_def Let_def)+

lemma boxes_current_iff:
  "boxes_current E st \<longleftrightarrow>
     (\<forall>k < length (m_aabb_trees st).
        m_bboxes_is_invalid st ! k \<or> m_bboxes st ! k = get_tree_bbox E (m_aabb_trees st ! k))"
  by (auto simp add: boxes_current_def list_all_iff)

lemma registry_inv_empty: "registry_inv cache E empty_registry"
  by (simp add: registry_inv_def stores_aligned_def boxes_current_iff empty_registry_def)

lemma registry_inv_init: "registry_inv cache E (init cache E tms st)"
  by (simp add: registry_inv_def stores_aligned_def boxes_current_iff init_def Let_def
      fold_init_step clear_trees_def new_Tree_def comp_def)

lemma registry_inv_add_mesh:
  assumes "registry_inv cache E st"
  shows "registry_inv cache E (snd (add_mesh cache E tm st))"
  using assms
  by (auto simp add: registry_inv_def stores_aligned_def boxes_current_iff add_mesh_def Let_def
      new_Tree_def nth_append)

lemma length_erase: "i < length xs \<Longrightarrow> length (erase i xs) = length xs - 1"
  by (simp add: erase_def)

lemma map_erase: "map f (erase i xs) = erase i (map f xs)"
  by (simp add: erase_def take_map drop_map)

lemma registry_inv_remove_mesh:
  assumes "registry_inv cache E st"
  shows "registry_inv cache E (remove_mesh cache mesh_id st)"
  using assms
  by (auto simp add: registry_inv_def stores_aligned_def boxes_current_iff remove_mesh_def Let_def
      length_erase map_erase)

lemma map_tree_mesh_update:
  "map tree_mesh (ts[i := (ts ! i)\<lparr>transformation := T\<rparr>]) = map tree_mesh ts"
proof (rule nth_equalityI)
  show "length (map tree_mesh (ts[i := (ts ! i)\<lparr>transformation := T\<rparr>])) = length (map tree_mesh ts)"
    by simp
next
  fix k
  assume "k < length (map tree_mesh (ts[i := (ts ! i)\<lparr>transformation := T\<rparr>]))"
  then show "map tree_mesh (ts[i := (ts ! i)\<lparr>transformation := T\<rparr>]) ! k = map tree_mesh ts ! k"
    by (cases "k = i") simp_all
qed

lemma registry_inv_set_transformation:
  assumes "registry_inv cache E st" and "set_transformation cache mesh_id aff st = Inr st1"
  shows "registry_inv cache E st1"
  using assms
  by (auto simp add: registry_inv_def stores_aligned_def boxes_current_iff set_transformation_def
      Let_def map_tree_mesh_update nth_list_update split: if_splits)

lemma registry_inv_apply_operation:
  assumes "registry_inv cache E st" and "apply_operation cache E x st = Inr st1"
  shows "registry_inv cache E st1"
  using assms
  by (cases x)
    (auto simp add: registry_inv_init registry_inv_add_mesh registry_inv_remove_mesh
      registry_inv_set_transformation)

lemma registry_inv_run_operations:
  assumes "registry_inv cache E st" and "run_operations cache E xs st = Inr st1"
  shows "registry_inv cache E st1"
  using assms
  by (induction xs arbitrary: st) (auto split: sum.splits dest: registry_inv_apply_operation)


subsection \<open>update_bboxes\<close>

lemma set_set_bits: "set (set_bits bs) = {i. i < length bs \<and> bs ! i}"
  by (auto simp add: set_bits_def)

lemma fold_list_update:
  "length (fold (\<lambda>i bb. bb[i := f i]) js bb) = length bb"
  "j < length bb \<Longrightarrow>
     fold (\<lambda>i bb. bb[i := f i]) js bb ! j = (if j \<in> set js then f j else bb ! j)"
  by (induction js arbitrary: bb; simp add: nth_list_update)+

lemma update_bboxes_fields:
  "m_triangle_mesh_ptrs (update_bboxes E st) = m_triangle_mesh_ptrs st"
  "m_aabb_trees (update_bboxes E st) = m_aabb_trees st"
  "m_is_closed (update_bboxes E st) = m_is_closed st"
  "m_bboxes_is_invalid (update_bboxes E st) = replicate (length (m_bboxes_is_invalid st)) False"
  by (simp_all add: update_bboxes_def)

lemma update_bboxes_boxes:
  assumes "registry_inv True E st"
  shows "m_bboxes (update_bboxes E st) = map (get_tree_bbox E) (m_aabb_trees st)"
proof (rule nth_equalityI)
  show "length (m_bboxes (update_bboxes E st)) = length (map (get_tree_bbox E) (m_aabb_trees st))"
    using assms by (simp add: update_bboxes_def fold_list_update registry_inv_def stores_aligned_def)
next
  fix k
  assume "k < length (m_bboxes (update_bboxes E st))"
  then have k: "k < length (m_bboxes st)"
    by (simp add: update_bboxes_def fold_list_update)
  with assms have "k < length (m_aabb_trees st)" "k < length (m_bboxes_is_invalid st)"
    by (simp_all add: registry_inv_def stores_aligned_def)
  moreover from assms have "boxes_current E st"
    by (simp add: registry_inv_def)
  ultimately show "m_bboxes (update_bboxes E st) ! k = map (get_tree_bbox E) (m_aabb_trees st) ! k"
    using k by (auto simp add: update_bboxes_def fold_list_update set_set_bits boxes_current_iff)
qed

lemma registry_inv_update_bboxes:
  assumes "registry_inv True E st"
  shows "registry_inv True E (update_bboxes E st)"
  using assms update_bboxes_boxes [OF assms]
  by (simp add: registry_inv_def stores_aligned_def boxes_current_iff update_bboxes_fields)

text \<open>The state a query works on, and leaves behind.\<close>

lemma refreshed_fields:
  "m_triangle_mesh_ptrs (if cache then update_bboxes E st else st) = m_triangle_mesh_ptrs st"
  "m_aabb_trees (if cache then update_bboxes E st else st) = m_aabb_trees st"
  "m_is_closed (if cache then update_bboxes E st else st) = m_is_closed st"
  by (simp_all add: update_bboxes_fields)

lemma refreshed_boxes:
  assumes "registry_inv cache E st" and "cache"
  shows "m_bboxes (if cache then update_bboxes E st else st) = map (get_tree_bbox E) (m_aabb_trees st)"
  using assms update_bboxes_boxes by auto

subsection \<open>The loop of get_all_intersections\<close>

lemma intersections_loop_filter:
  assumes "mesh_id < length (m_aabb_trees st)"
  shows "intersections_loop cache E st mesh_id ks res =
           Inr (res @ filter (\<lambda>k. k \<noteq> mesh_id \<and>
                  (cache \<longrightarrow> do_overlap E (m_bboxes st ! k) (m_bboxes st ! mesh_id)) \<and>
                  do_intersect E (m_aabb_trees st ! k) (m_aabb_trees st ! mesh_id)) ks)"
  using assms by (induction ks arbitrary: res) auto

lemma get_all_intersections_result:
  assumes "registry_inv cache E st" and "mesh_id < length (m_aabb_trees st)"
  shows "get_all_intersections cache E mesh_id st =
           Inr (filter (\<lambda>k. k \<noteq> mesh_id \<and>
                  reports_overlap cache E (m_aabb_trees st ! k) (m_aabb_trees st ! mesh_id))
                  [0..<length (m_aabb_trees st)],
                if cache then update_bboxes E st else st)"
proof -
  let ?st1 = "if cache then update_bboxes E st else st"
  have "intersections_loop cache E ?st1 mesh_id [0..<length (m_aabb_trees ?st1)] [] =
          Inr (filter (\<lambda>k. k \<noteq> mesh_id \<and>
                  (cache \<longrightarrow> do_overlap E (m_bboxes ?st1 ! k) (m_bboxes ?st1 ! mesh_id)) \<and>
                  do_intersect E (m_aabb_trees ?st1 ! k) (m_aabb_trees ?st1 ! mesh_id))
                 [0..<length (m_aabb_trees ?st1)])"
    using assms(2) by (subst intersections_loop_filter) (simp_all add: refreshed_fields)
  also have "filter (\<lambda>k. k \<noteq> mesh_id \<and>
                  (cache \<longrightarrow> do_overlap E (m_bboxes ?st1 ! k) (m_bboxes ?st1 ! mesh_id)) \<and>
                  do_intersect E (m_aabb_trees ?st1 ! k) (m_aabb_trees ?st1 ! mesh_id))
                 [0..<length (m_aabb_trees ?st1)] =
             filter (\<lambda>k. k \<noteq> mesh_id \<and>
                  reports_overlap cache E (m_aabb_trees st ! k) (m_aabb_trees st ! mesh_id))
                  [0..<length (m_aabb_trees st)]"
  proof (cases cache)
    case True
    with assms show ?thesis
      by (auto simp add: update_bboxes_fields update_bboxes_boxes reports_overlap_def
          intro!: filter_cong)
  next
    case False
    then show ?thesis
      by (simp add: reports_overlap_def)
  qed
  finally show ?thesis
    by (simp add: get_all_intersections_def Let_def)
qed

subsection \<open>The loop of get_all_intersections_and_inclusions\<close>

lemma inclusions_loop_Cons:
  assumes "mesh_id < length (m_aabb_trees st)"
  shows "inclusions_loop cache E st mesh_id (k # ks) res =
           (case round_result cache E st mesh_id k of
              Inl e \<Rightarrow> Inl e
            | Inr xs \<Rightarrow> inclusions_loop cache E st mesh_id ks (res @ xs))"
  using assms by (simp add: round_result_def split: sum.splits)

lemma inclusions_loop_defined:
  assumes "mesh_id < length (m_aabb_trees st)"
    and "\<forall>k \<in> set ks. \<exists>xs. round_result cache E st mesh_id k = Inr xs"
  shows "inclusions_loop cache E st mesh_id ks res =
           Inr (res @ concat (map (\<lambda>k. projr (round_result cache E st mesh_id k)) ks))"
  using assms(2)
proof (induction ks arbitrary: res)
  case Nil
  then show ?case by simp
next
  case (Cons k ks)
  from Cons.prems obtain xs where xs: "round_result cache E st mesh_id k = Inr xs"
    by auto
  from Cons.prems have rest: "\<forall>k \<in> set ks. \<exists>xs. round_result cache E st mesh_id k = Inr xs"
    by simp
  show ?case
    by (simp add: inclusions_loop_Cons [OF assms(1)] xs Cons.IH [OF rest] del: inclusions_loop.simps)
qed

lemma inclusions_loop_undefined:
  assumes "mesh_id < length (m_aabb_trees st)"
    and "inclusions_loop cache E st mesh_id ks res = Inl e"
  shows "\<exists>k \<in> set ks. round_result cache E st mesh_id k = Inl e"
  using assms(2)
proof (induction ks arbitrary: res)
  case Nil
  then show ?case by simp
next
  case (Cons k ks)
  show ?case
  proof (cases "round_result cache E st mesh_id k")
    case (Inl e')
    with Cons.prems show ?thesis
      by (simp add: inclusions_loop_Cons [OF assms(1)] del: inclusions_loop.simps)
  next
    case (Inr xs)
    with Cons.prems have "inclusions_loop cache E st mesh_id ks (res @ xs) = Inl e"
      by (simp add: inclusions_loop_Cons [OF assms(1)] del: inclusions_loop.simps)
    from Cons.IH [OF this] show ?thesis
      by simp
  qed
qed

lemma inclusions_loop_Inr:
  assumes "mesh_id < length (m_aabb_trees st)"
    and "inclusions_loop cache E st mesh_id ks res = Inr r"
  shows "\<forall>k \<in> set ks. \<exists>xs. round_result cache E st mesh_id k = Inr xs"
  using assms(2)
proof (induction ks arbitrary: res)
  case Nil
  then show ?case by simp
next
  case (Cons k ks)
  show ?case
  proof (cases "round_result cache E st mesh_id k")
    case (Inl e')
    with Cons.prems show ?thesis
      by (simp add: inclusions_loop_Cons [OF assms(1)] del: inclusions_loop.simps)
  next
    case (Inr xs)
    with Cons.prems have "inclusions_loop cache E st mesh_id ks (res @ xs) = Inr r"
      by (simp add: inclusions_loop_Cons [OF assms(1)] del: inclusions_loop.simps)
    from Cons.IH [OF this] Inr show ?thesis
      by simp
  qed
qed

lemma probe_vertices:
  "probe E st a b =
     (case vertices E (m_triangle_mesh_ptrs st ! b) of
        [] \<Rightarrow> Inl Empty_range_dereferenced
      | v # vs \<Rightarrow>
          Inr (Side_of_tm E (m_aabb_trees st ! a)
                 (transform E (transformation (m_aabb_trees st ! b))
                    (vertex_point E (m_triangle_mesh_ptrs st ! b) v))))"
  by (simp add: probe_def first_vertex_point_def split: list.splits)

lemma probe_Inl:
  "probe E st a b = Inl e \<longleftrightarrow>
     vertices E (m_triangle_mesh_ptrs st ! b) = [] \<and> e = Empty_range_dereferenced"
  by (auto simp add: probe_vertices split: list.splits)

lemma probe_Inr:
  "(\<exists>s. probe E st a b = Inr s) \<longleftrightarrow> vertices E (m_triangle_mesh_ptrs st ! b) \<noteq> []"
  by (simp add: probe_vertices split: list.splits)

lemma probe_refreshed: "probe E (update_bboxes E st) a b = probe E st a b"
  by (simp add: probe_vertices update_bboxes_fields cong: list.case_cong)

lemma reverse_probe_refreshed:
  "reverse_probe E (update_bboxes E st) i k = reverse_probe E st i k"
  by (simp add: reverse_probe_def probe_refreshed update_bboxes_fields)

lemma nesting_probes_refreshed:
  "nesting_probes E (if cache then update_bboxes E st else st) i k = nesting_probes E st i k"
  by (simp add: nesting_probes_def reverse_probe_refreshed probe_refreshed update_bboxes_fields
      cong: sum.case_cong if_cong)

lemma reverse_probe_Inr:
  "reverse_probe E st i k = Inr b \<longleftrightarrow>
     (if m_is_closed st ! k
      then \<exists>s. probe E st k i = Inr s \<and> b = (s = ON_BOUNDED_SIDE)
      else \<not> b)"
  by (cases "probe E st k i") (auto simp add: reverse_probe_def)

lemma reverse_probe_Inl:
  "reverse_probe E st i k = Inl e \<longleftrightarrow>
     e = Empty_range_dereferenced \<and> m_is_closed st ! k \<and>
     vertices E (m_triangle_mesh_ptrs st ! i) = []"
proof (cases "probe E st k i")
  case (Inl e')
  then have "vertices E (m_triangle_mesh_ptrs st ! i) = [] \<and> e' = Empty_range_dereferenced"
    by (simp only: probe_Inl)
  with Inl show ?thesis
    by (auto simp add: reverse_probe_def)
next
  case (Inr s)
  then have "vertices E (m_triangle_mesh_ptrs st ! i) \<noteq> []"
    using probe_Inr [of E st k i] by blast
  with Inr show ?thesis
    by (auto simp add: reverse_probe_def)
qed

lemma nesting_probes_Inr:
  assumes "nesting_probes E st i k = Inr b"
  shows "b \<longleftrightarrow> (m_is_closed st ! i \<and> probe E st i k = Inr ON_BOUNDED_SIDE) \<or>
               (m_is_closed st ! k \<and> probe E st k i = Inr ON_BOUNDED_SIDE)"
proof (cases "m_is_closed st ! i \<and> probe E st i k = Inr ON_BOUNDED_SIDE")
  case True
  with assms show ?thesis
    by (simp add: nesting_probes_def)
next
  case False
  with assms have "reverse_probe E st i k = Inr b"
    by (cases "probe E st i k") (auto simp add: nesting_probes_def split: if_splits)
  with False show ?thesis
    by (auto simp add: reverse_probe_Inr split: if_splits)
qed

lemma nesting_probes_Inl:
  "nesting_probes E st i k = Inl e \<longleftrightarrow>
     e = Empty_range_dereferenced \<and>
     ((m_is_closed st ! i \<and> vertices E (m_triangle_mesh_ptrs st ! k) = []) \<or>
      (\<not> (m_is_closed st ! i \<and> probe E st i k = Inr ON_BOUNDED_SIDE) \<and>
       m_is_closed st ! k \<and> vertices E (m_triangle_mesh_ptrs st ! i) = []))"
proof (cases "m_is_closed st ! i")
  case False
  then show ?thesis
    by (auto simp add: nesting_probes_def reverse_probe_Inl)
next
  case True
  show ?thesis
  proof (cases "probe E st i k")
    case (Inl e')
    then have "vertices E (m_triangle_mesh_ptrs st ! k) = [] \<and> e' = Empty_range_dereferenced"
      by (simp only: probe_Inl)
    with Inl True show ?thesis
      by (auto simp add: nesting_probes_def)
  next
    case (Inr s)
    then have "vertices E (m_triangle_mesh_ptrs st ! k) \<noteq> []"
      using probe_Inr [of E st i k] by blast
    with Inr True show ?thesis
      by (auto simp add: nesting_probes_def reverse_probe_Inl)
  qed
qed

lemma round_result_refreshed:
  assumes "registry_inv cache E st"
    and "i < length (m_aabb_trees st)" and "k < length (m_aabb_trees st)"
  shows "round_result cache E (if cache then update_bboxes E st else st) i k =
           (if k = i then Inr []
            else if \<not> reports_overlap cache E (m_aabb_trees st ! k) (m_aabb_trees st ! i)
              then (if cache \<and> \<not> do_overlap E (get_tree_bbox E (m_aabb_trees st ! k))
                                     (get_tree_bbox E (m_aabb_trees st ! i))
                    then Inr []
                    else (case nesting_probes E st i k of
                            Inl e \<Rightarrow> Inl e
                          | Inr b \<Rightarrow> Inr (if b then [(k, True)] else [])))
            else Inr [(k, False)])"
proof (cases cache)
  case True
  with assms have "m_bboxes (update_bboxes E st) = map (get_tree_bbox E) (m_aabb_trees st)"
    by (simp add: update_bboxes_boxes)
  with True assms(2,3) show ?thesis
    using nesting_probes_refreshed [of E True st i k]
    by (simp add: round_result_def reports_overlap_def update_bboxes_fields)
next
  case False
  then show ?thesis
    by (simp add: round_result_def reports_overlap_def)
qed

lemma round_result_shape:
  "round_result cache E st i k = Inr xs \<Longrightarrow> xs = [] \<or> xs = [(k, False)] \<or> xs = [(k, True)]"
  by (auto simp add: round_result_def split: if_splits sum.splits)

lemma member_rounds:
  assumes "\<forall>k \<in> set ks. \<exists>xs. round_result cache E st i k = Inr xs"
  shows "(j, b) \<in> set (concat (map (\<lambda>k. projr (round_result cache E st i k)) ks)) \<longleftrightarrow>
           j \<in> set ks \<and> (j, b) \<in> set (projr (round_result cache E st i j))"
proof -
  have "\<And>k. k \<in> set ks \<Longrightarrow> (j, b) \<in> set (projr (round_result cache E st i k)) \<Longrightarrow> k = j"
  proof -
    fix k
    assume "k \<in> set ks" and m: "(j, b) \<in> set (projr (round_result cache E st i k))"
    with assms obtain xs where xs: "round_result cache E st i k = Inr xs"
      by blast
    from round_result_shape [OF xs] m xs show "k = j"
      by auto
  qed
  then show ?thesis
    by auto
qed

lemma fst_rounds:
  assumes "\<forall>k \<in> set ks. \<exists>xs. round_result cache E st i k = Inr xs"
  shows "map fst (concat (map (\<lambda>k. projr (round_result cache E st i k)) ks)) =
           filter (\<lambda>k. projr (round_result cache E st i k) \<noteq> []) ks"
  using assms
proof (induction ks)
  case Nil
  then show ?case by simp
next
  case (Cons k ks)
  then obtain xs where xs: "round_result cache E st i k = Inr xs"
    by auto
  from round_result_shape [OF xs] xs Cons show ?case
    by auto
qed

text \<open>What a successful query returned, round by round.\<close>

lemma inclusions_result:
  assumes inv: "registry_inv cache E st" and i: "i < length (m_aabb_trees st)"
    and q: "get_all_intersections_and_inclusions cache E i st = Inr (res, st1)"
  shows "\<forall>k < length (m_aabb_trees st).
           \<exists>xs. round_result cache E (if cache then update_bboxes E st else st) i k = Inr xs"
    and "(j, b) \<in> set res \<longleftrightarrow>
           j < length (m_aabb_trees st) \<and>
           (j, b) \<in> set (projr (round_result cache E (if cache then update_bboxes E st else st) i j))"
    and "distinct (map fst res)"
proof -
  let ?st = "if cache then update_bboxes E st else st"
  let ?ks = "[0..<length (m_aabb_trees st)]"
  have len: "length (m_aabb_trees ?st) = length (m_aabb_trees st)"
    by (simp add: refreshed_fields)
  from q obtain r where r: "inclusions_loop cache E ?st i ?ks [] = Inr r" and "res = r"
    by (auto simp add: get_all_intersections_and_inclusions_def Let_def refreshed_fields
        split: sum.splits)
  from i len have i': "i < length (m_aabb_trees ?st)"
    by simp
  from inclusions_loop_Inr [OF i' r]
  have all: "\<forall>k \<in> set ?ks. \<exists>xs. round_result cache E ?st i k = Inr xs" .
  then show "\<forall>k < length (m_aabb_trees st). \<exists>xs. round_result cache E ?st i k = Inr xs"
    by simp
  from inclusions_loop_defined [OF i' all, of "[]"] r \<open>res = r\<close>
  have res: "res = concat (map (\<lambda>k. projr (round_result cache E ?st i k)) ?ks)"
    by simp
  show "(j, b) \<in> set res \<longleftrightarrow>
           j < length (m_aabb_trees st) \<and> (j, b) \<in> set (projr (round_result cache E ?st i j))"
    unfolding res using member_rounds [OF all, of j b] by simp
  show "distinct (map fst res)"
    unfolding res fst_rounds [OF all] by simp
qed

lemma init_fields:
  "m_triangle_mesh_ptrs (init cache E tms st) = tms"
  "m_aabb_trees (init cache E tms st) = map (new_Tree E) tms"
  by (simp_all add: init_def Let_def fold_init_step clear_trees_def)

lemma length_example_registry:
  "length (m_triangle_mesh_ptrs (example_registry cache)) = 4"
  "length (m_aabb_trees (example_registry cache)) = 4"
  by (simp_all add: example_registry_def init_fields example_meshes_def)

subsection \<open>The concrete scene, evaluated\<close>

lemma example_registry_inv: "registry_inv cache line_externals (example_registry cache)"
  unfolding example_registry_def by (rule registry_inv_init)

lemma example_trees:
  "m_aabb_trees (example_registry cache) =
     [\<lparr>tree_mesh = (True, [0, 10], [0, 10]), transformation = 0\<rparr>,
      \<lparr>tree_mesh = (True, [2, 4], [2, 4]), transformation = 0\<rparr>,
      \<lparr>tree_mesh = (False, [10, 20], [10, 20]), transformation = 0\<rparr>,
      \<lparr>tree_mesh = (False, [30, 40], [30, 40]), transformation = 0\<rparr>]"
  "m_triangle_mesh_ptrs (example_registry cache) = example_meshes"
  by (simp_all add: example_registry_def init_fields example_meshes_def new_Tree_def
      line_externals_def)

lemma example_closed: "m_is_closed (example_registry cache) = [True, True, False, False]"
  by (simp add: example_registry_def example_meshes_def init_def init_step_def Let_def
      clear_trees_def empty_registry_def line_externals_def)

lemmas line_simps = line_externals_def line_points_def line_overlap_def line_side_def

lemmas query_simps = get_all_intersections_and_inclusions_def get_all_intersections_def
  update_bboxes_def set_bits_def nesting_probes_def reverse_probe_def probe_def
  first_vertex_point_def Let_def

lemma round_result_Inl:
  assumes "registry_inv cache E st"
    and "i < length (m_aabb_trees st)" and "k < length (m_aabb_trees st)"
  shows "round_result cache E (if cache then update_bboxes E st else st) i k = Inl e \<longleftrightarrow>
           e = Empty_range_dereferenced \<and> unguarded_probe cache E st i k"
proof (cases "nesting_probes E st i k")
  case (Inl e')
  with nesting_probes_Inl [of E st i k e'] show ?thesis
    unfolding round_result_refreshed [OF assms] unguarded_probe_def
    by (auto simp add: reports_overlap_def)
next
  case (Inr b)
  with nesting_probes_Inl [of E st i k Empty_range_dereferenced] show ?thesis
    unfolding round_result_refreshed [OF assms] unguarded_probe_def
    by (auto simp add: reports_overlap_def)
qed

lemma line_do_intersect_sym: "do_intersect line_externals a b = do_intersect line_externals b a"
  by (auto simp add: line_externals_def)

lemma line_do_overlap_sym: "do_overlap line_externals x y = do_overlap line_externals y x"
  by (auto simp add: line_externals_def line_overlap_def)

lemma line_reports_overlap_sym:
  "\<forall>a b. reports_overlap cache line_externals a b = reports_overlap cache line_externals b a"
  unfolding reports_overlap_def
  using line_do_intersect_sym line_do_overlap_sym by blast

lemma example_inclusions_1:
  "get_all_intersections_and_inclusions False line_externals 1 (example_registry False) =
     Inr ([(0, True)], example_registry False)"
  by (simp add: get_all_intersections_and_inclusions_def Let_def example_trees)
     (simp add: example_registry_def example_meshes_def init_def init_step_def clear_trees_def
      new_Tree_def empty_registry_def query_simps line_simps)

lemma hollow_fields:
  "m_triangle_mesh_ptrs hollow_registry = [(True, [0, 10], [0, 10]), (False, [], [])]"
  "m_aabb_trees hollow_registry =
     [\<lparr>tree_mesh = (True, [0, 10], [0, 10]), transformation = 0\<rparr>,
      \<lparr>tree_mesh = (False, [], []), transformation = 0\<rparr>]"
  "m_is_closed hollow_registry = [True, False]"
  by (simp_all add: hollow_registry_def hollow_meshes_def init_def init_step_def Let_def
      clear_trees_def new_Tree_def empty_registry_def line_externals_def)

subsection \<open>The cached and the uncached build side by side\<close>

lemma fold_init_step_closed:
  assumes "m_is_closed s = m_is_closed t"
    and "length (m_triangle_mesh_ptrs s) = length (m_triangle_mesh_ptrs t)"
  shows "m_is_closed (fold (init_step E) tms s) = m_is_closed (fold (init_step E) tms t)"
  using assms by (induction tms arbitrary: s t) (simp_all add: init_step_def Let_def)

lemma same_entries_init: "same_entries (init c1 E tms s) (init c2 E tms t)"
proof -
  have "m_is_closed (init c1 E tms s) = m_is_closed (init c2 E tms t)"
    unfolding init_def Let_def
    by (rule fold_init_step_closed) (simp_all add: clear_trees_def)
  then show ?thesis
    by (simp add: same_entries_def init_fields)
qed

lemma same_entries_apply_operation:
  assumes "same_entries s t"
    and "apply_operation c1 E x s = Inr s1" and "apply_operation c2 E x t = Inr t1"
  shows "same_entries s1 t1"
proof (cases x)
  case (Init tms)
  with assms show ?thesis
    using same_entries_init [of c1 E tms s c2 t] by auto
next
  case (Add_mesh tm)
  with assms show ?thesis
    by (auto simp add: same_entries_def add_mesh_def Let_def)
next
  case (Remove_mesh p)
  with assms show ?thesis
    by (auto simp add: same_entries_def remove_mesh_def Let_def)
next
  case (Set_transformation p T)
  with assms show ?thesis
    by (auto simp add: same_entries_def set_transformation_def Let_def split: if_splits)
qed

lemma same_entries_probe:
  assumes "same_entries s t"
  shows "probe E s a b = probe E t a b"
  using assms by (simp add: same_entries_def probe_def split: sum.splits)

lemma same_entries_reverse_probe:
  assumes "same_entries s t"
  shows "reverse_probe E s i k = reverse_probe E t i k"
  using assms same_entries_probe [OF assms, of E k i] by (simp add: same_entries_def reverse_probe_def)

lemma same_entries_nesting_probes:
  assumes "same_entries s t"
  shows "nesting_probes E s i k = nesting_probes E t i k"
proof -
  from assms have "m_is_closed s = m_is_closed t"
    by (simp add: same_entries_def)
  then show ?thesis
    unfolding nesting_probes_def same_entries_probe [OF assms] same_entries_reverse_probe [OF assms]
    by simp
qed

lemma line_box_filter_sound: "box_filter_sound line_externals"
  unfolding box_filter_sound_def line_externals_def line_overlap_def
  by simp blast

lemma get_all_intersections_and_inclusions_rounds:
  assumes "registry_inv cache E st" and "i < length (m_aabb_trees st)"
    and "\<forall>k < length (m_aabb_trees st).
           \<exists>xs. round_result cache E (if cache then update_bboxes E st else st) i k = Inr xs"
  shows "get_all_intersections_and_inclusions cache E i st =
           Inr (concat (map (\<lambda>k. projr (round_result cache E
                   (if cache then update_bboxes E st else st) i k)) [0..<length (m_aabb_trees st)]),
                if cache then update_bboxes E st else st)"
proof -
  let ?st = "if cache then update_bboxes E st else st"
  from assms(2) have i': "i < length (m_aabb_trees ?st)"
    by (simp add: refreshed_fields)
  from assms(3)
  have all: "\<forall>k \<in> set [0..<length (m_aabb_trees st)]. \<exists>xs. round_result cache E ?st i k = Inr xs"
    by simp
  from inclusions_loop_defined [OF i' all, of "[]"] show ?thesis
    by (simp add: get_all_intersections_and_inclusions_def Let_def refreshed_fields
        split del: if_split)
qed

lemma round_result_cached:
  assumes "registry_inv True E st"
    and "i < length (m_aabb_trees st)" and "k < length (m_aabb_trees st)"
  shows "round_result True E (update_bboxes E st) i k =
           (if k = i \<or> \<not> do_overlap E (get_tree_bbox E (m_aabb_trees st ! k))
                                   (get_tree_bbox E (m_aabb_trees st ! i))
            then Inr [] else round_result False E st i k)"
proof -
  have "m_bboxes (update_bboxes E st) = map (get_tree_bbox E) (m_aabb_trees st)"
    by (rule update_bboxes_boxes [OF assms(1)])
  with assms(2,3) show ?thesis
    using nesting_probes_refreshed [of E True st i k]
    by (simp add: round_result_def update_bboxes_fields)
qed

lemma same_entries_round_result:
  assumes "same_entries s t"
  shows "round_result False E s i k = round_result False E t i k"
  using assms same_entries_nesting_probes [OF assms, of E i k]
  by (simp add: round_result_def same_entries_def)

lemma stray_fields:
  "m_triangle_mesh_ptrs (stray_registry cache) = [(True, [- 5, 5], [- 5, 5]), (False, [0, 50, 60], [50, 60])]"
  "m_aabb_trees (stray_registry cache) =
     [\<lparr>tree_mesh = (True, [- 5, 5], [- 5, 5]), transformation = 0\<rparr>,
      \<lparr>tree_mesh = (False, [0, 50, 60], [50, 60]), transformation = 0\<rparr>]"
  "m_is_closed (stray_registry cache) = [True, False]"
  by (simp_all add: stray_registry_def stray_meshes_def init_def init_step_def Let_def
      clear_trees_def new_Tree_def empty_registry_def line_externals_def)

lemma stray_boxes:
  "m_bboxes (update_bboxes line_externals (stray_registry True)) = [[- 5, 5], [50, 60]]"
proof -
  have "registry_inv True line_externals (stray_registry True)"
    unfolding stray_registry_def by (rule registry_inv_init)
  from update_bboxes_boxes [OF this] show ?thesis
    by (simp add: stray_fields line_simps)
qed

subsection \<open>The probes in terms of the collaborators\<close>

lemma probe_bounded:
  "probe E st a b = Inr ON_BOUNDED_SIDE \<longleftrightarrow>
     (\<exists>v vs. vertices E (m_triangle_mesh_ptrs st ! b) = v # vs \<and>
        Side_of_tm E (m_aabb_trees st ! a)
          (transform E (transformation (m_aabb_trees st ! b))
             (vertex_point E (m_triangle_mesh_ptrs st ! b) v)) = ON_BOUNDED_SIDE)"
  by (cases "vertices E (m_triangle_mesh_ptrs st ! b)") (simp_all add: probe_vertices)

lemma run_moved_calls:
  "run_operations True line_externals moved_calls empty_registry = Inr moved_registry"
  by (simp add: moved_calls_def moved_meshes_def moved_registry_def init_def init_step_def
      clear_trees_def new_Tree_def empty_registry_def line_externals_def Let_def
      set_transformation_def)

lemma moved_registry_inv: "registry_inv True line_externals moved_registry"
  by (rule registry_inv_run_operations [OF registry_inv_empty run_moved_calls])

lemma moved_fields:
  "m_triangle_mesh_ptrs moved_registry = [(True, [0, 10], [0, 10]), (True, [22, 24], [22, 24])]"
  "m_aabb_trees moved_registry =
     [\<lparr>tree_mesh = (True, [0, 10], [0, 10]), transformation = 0\<rparr>,
      \<lparr>tree_mesh = (True, [22, 24], [22, 24]), transformation = - 20\<rparr>]"
  "m_is_closed moved_registry = [True, True]"
  by (simp_all add: moved_registry_def)

lemma moved_boxes:
  "m_bboxes (update_bboxes line_externals moved_registry) = [[0, 10], [2, 4]]"
  using update_bboxes_boxes [OF moved_registry_inv]
  by (simp add: moved_fields line_simps)

lemma nesting_probes_updated:
  "nesting_probes E (update_bboxes E st) i k = nesting_probes E st i k"
  using nesting_probes_refreshed [of E True st i k] by simp

lemma moved_inclusions_0:
  "get_all_intersections_and_inclusions True line_externals 0 moved_registry =
     Inr ([(1, True)], update_bboxes line_externals moved_registry)"
  by (simp add: get_all_intersections_and_inclusions_def Let_def update_bboxes_fields moved_boxes
      moved_fields nesting_probes_updated)
    (simp add: moved_fields nesting_probes_def reverse_probe_def probe_def
      first_vertex_point_def line_simps)

subsection \<open>Runs with queries\<close>

lemma get_all_intersections_state:
  assumes "get_all_intersections cache E i st = Inr (r, st1)"
  shows "st1 = (if cache then update_bboxes E st else st)"
  using assms
  by (cases "intersections_loop cache E (if cache then update_bboxes E st else st) i
         [0..<length (m_aabb_trees (if cache then update_bboxes E st else st))] []")
    (simp_all add: get_all_intersections_def Let_def split del: if_split)

lemma get_all_intersections_and_inclusions_state:
  assumes "get_all_intersections_and_inclusions cache E i st = Inr (r, st1)"
  shows "st1 = (if cache then update_bboxes E st else st)"
  using assms
  by (cases "inclusions_loop cache E (if cache then update_bboxes E st else st) i
         [0..<length (m_aabb_trees (if cache then update_bboxes E st else st))] []")
    (simp_all add: get_all_intersections_and_inclusions_def Let_def split del: if_split)

lemma registry_inv_refreshed:
  assumes "registry_inv cache E st"
  shows "registry_inv cache E (if cache then update_bboxes E st else st)"
  using assms by (cases cache) (simp_all add: registry_inv_update_bboxes)

lemma same_entries_refreshed:
  "same_entries (if cache then update_bboxes E st else st) st"
  by (simp add: same_entries_def update_bboxes_fields)

lemma apply_call_query_state:
  assumes "apply_call cache E c st = Inr st1" and "\<forall>x. c \<noteq> Mutation x"
  shows "st1 = (if cache then update_bboxes E st else st)"
proof (cases c)
  case (Mutation x)
  with assms(2) show ?thesis by simp
next
  case (Intersections_query i)
  with assms(1) obtain r where "get_all_intersections cache E i st = Inr (r, st1)"
    by (cases "get_all_intersections cache E i st") auto
  then show ?thesis
    by (rule get_all_intersections_state)
next
  case (Inclusions_query i)
  with assms(1) obtain r where "get_all_intersections_and_inclusions cache E i st = Inr (r, st1)"
    by (cases "get_all_intersections_and_inclusions cache E i st") auto
  then show ?thesis
    by (rule get_all_intersections_and_inclusions_state)
qed

lemma registry_inv_apply_call:
  assumes "registry_inv cache E st" and "apply_call cache E c st = Inr st1"
  shows "registry_inv cache E st1"
proof (cases "\<exists>x. c = Mutation x")
  case True
  with assms show ?thesis
    by (auto dest: registry_inv_apply_operation)
next
  case False
  with apply_call_query_state [OF assms(2)] registry_inv_refreshed [OF assms(1)]
  show ?thesis
    by simp
qed

lemma registry_inv_run_calls:
  assumes "registry_inv cache E st" and "run_calls cache E cs st = Inr st1"
  shows "registry_inv cache E st1"
  using assms
proof (induction cs arbitrary: st)
  case Nil
  then show ?case by simp
next
  case (Cons c cs)
  from Cons.prems(2) obtain st' where a: "apply_call cache E c st = Inr st'"
    and r: "run_calls cache E cs st' = Inr st1"
    by (cases "apply_call cache E c st") simp_all
  from Cons.IH [OF registry_inv_apply_call [OF Cons.prems(1) a] r] show ?case .
qed

lemma same_entries_trans_refreshed:
  assumes "same_entries s t"
  shows "same_entries (if c1 then update_bboxes E s else s) (if c2 then update_bboxes E t else t)"
  using assms by (simp add: same_entries_def update_bboxes_fields)

lemma same_entries_apply_call:
  assumes "same_entries s t"
    and "apply_call c1 E c s = Inr s1" and "apply_call c2 E c t = Inr t1"
  shows "same_entries s1 t1"
proof (cases "\<exists>x. c = Mutation x")
  case True
  with assms show ?thesis
    by (auto dest: same_entries_apply_operation)
next
  case False
  with apply_call_query_state [OF assms(2)] apply_call_query_state [OF assms(3)]
    same_entries_trans_refreshed [OF assms(1), of c1 E c2]
  show ?thesis
    by simp
qed

lemma same_entries_run_calls:
  assumes "same_entries s t"
    and "run_calls c1 E cs s = Inr s1" and "run_calls c2 E cs t = Inr t1"
  shows "same_entries s1 t1"
  using assms
proof (induction cs arbitrary: s t)
  case Nil
  then show ?case by simp
next
  case (Cons c cs)
  from Cons.prems(2) obtain s' where s': "apply_call c1 E c s = Inr s'"
    and rs: "run_calls c1 E cs s' = Inr s1"
    by (cases "apply_call c1 E c s") simp_all
  from Cons.prems(3) obtain t' where t': "apply_call c2 E c t = Inr t'"
    and rt: "run_calls c2 E cs t' = Inr t1"
    by (cases "apply_call c2 E c t") simp_all
  from Cons.IH [OF same_entries_apply_call [OF Cons.prems(1) s' t'] rs rt] show ?case .
qed

lemma inclusions_loop_cong:
  assumes "i < length (m_aabb_trees s)" and "i < length (m_aabb_trees t)"
    and "\<forall>k \<in> set ks. round_result c1 E s i k = round_result c2 E t i k"
  shows "inclusions_loop c1 E s i ks res = inclusions_loop c2 E t i ks res"
  using assms(3)
proof (induction ks arbitrary: res)
  case Nil
  then show ?case by simp
next
  case (Cons k ks)
  then have r: "round_result c1 E s i k = round_result c2 E t i k"
    and rest: "\<forall>k \<in> set ks. round_result c1 E s i k = round_result c2 E t i k"
    by simp_all
  show ?case
    unfolding inclusions_loop_Cons [OF assms(1)] inclusions_loop_Cons [OF assms(2)] r
    by (cases "round_result c2 E t i k") (simp_all add: Cons.IH [OF rest])
qed

lemma probe_first_vertex_inside:
  "probe E st a b = Inr ON_BOUNDED_SIDE \<longleftrightarrow> first_vertex_inside E st a b"
  by (cases "vertices E (m_triangle_mesh_ptrs st ! b)")
    (simp_all add: probe_vertices first_vertex_inside_def)

lemma nesting_probes_none:
  assumes "m_is_closed st ! i \<longrightarrow>
             vertices E (m_triangle_mesh_ptrs st ! k) \<noteq> [] \<and> \<not> first_vertex_inside E st i k"
    and "m_is_closed st ! k \<longrightarrow>
             vertices E (m_triangle_mesh_ptrs st ! i) \<noteq> [] \<and> \<not> first_vertex_inside E st k i"
  shows "nesting_probes E st i k = Inr False"
proof (cases "nesting_probes E st i k")
  case (Inl e)
  with assms show ?thesis
    by (auto simp add: nesting_probes_Inl)
next
  case (Inr b)
  from nesting_probes_Inr [OF Inr] assms have "\<not> b"
    by (auto simp add: probe_first_vertex_inside)
  with Inr show ?thesis
    by simp
qed

lemma box_disjoint_pairs_not_nested_iff:
  "box_disjoint_pairs_not_nested E st i \<longleftrightarrow>
     (\<forall>k < length (m_aabb_trees st).
        k = i \<or>
        do_overlap E (get_tree_bbox E (m_aabb_trees st ! k)) (get_tree_bbox E (m_aabb_trees st ! i)) \<or>
        ((m_is_closed st ! i \<longrightarrow>
            vertices E (m_triangle_mesh_ptrs st ! k) \<noteq> [] \<and> \<not> first_vertex_inside E st i k) \<and>
         (m_is_closed st ! k \<longrightarrow>
            vertices E (m_triangle_mesh_ptrs st ! i) \<noteq> [] \<and> \<not> first_vertex_inside E st k i)))"
  by (auto simp add: box_disjoint_pairs_not_nested_def list_all_iff)

lemma run_warm_calls:
  "run_calls True line_externals warm_calls empty_registry = Inr (warm_registry True)"
  "run_calls False line_externals warm_calls empty_registry = Inr (warm_registry False)"
  by (simp_all add: warm_calls_def warm_registry_def example_meshes_def init_def init_step_def
      clear_trees_def new_Tree_def empty_registry_def Let_def set_transformation_def
      get_all_intersections_def update_bboxes_def set_bits_def line_simps)

lemma warm_fields:
  "m_triangle_mesh_ptrs (warm_registry cache) =
     [(True, [0, 10], [0, 10]), (True, [2, 4], [2, 4]), (False, [10, 20], [10, 20]),
      (False, [30, 40], [30, 40])]"
  "m_aabb_trees (warm_registry cache) =
     [\<lparr>tree_mesh = (True, [0, 10], [0, 10]), transformation = 0\<rparr>,
      \<lparr>tree_mesh = (True, [2, 4], [2, 4]), transformation = 0\<rparr>,
      \<lparr>tree_mesh = (False, [10, 20], [10, 20]), transformation = 0\<rparr>,
      \<lparr>tree_mesh = (False, [30, 40], [30, 40]), transformation = - 30\<rparr>]"
  "m_is_closed (warm_registry cache) = [True, True, False, False]"
  by (simp_all add: warm_registry_def)

lemma warm_not_nested: "box_disjoint_pairs_not_nested line_externals (warm_registry False) 0"
  by (simp add: box_disjoint_pairs_not_nested_def first_vertex_inside_def warm_fields line_simps)

lemma warm_inclusions_uncached:
  "map_sum id fst (get_all_intersections_and_inclusions False line_externals 0 (warm_registry False)) =
     Inr [(1, True), (2, False), (3, False)]"
  by (simp add: get_all_intersections_and_inclusions_def warm_fields nesting_probes_def
      reverse_probe_def probe_def first_vertex_point_def line_simps)

lemma run_calls_init:
  "run_calls cache E [Mutation (Init tms)] empty_registry = Inr (init cache E tms empty_registry)"
  by simp

section \<open>The properties\<close>

subsection \<open>C9: the parallel stores have one length\<close>

lemma run_example_calls:
  "run_operations True line_externals example_calls empty_registry = Inr example_final"
  by (simp add: example_calls_def example_meshes_def example_final_def init_def init_step_def
      clear_trees_def new_Tree_def empty_registry_def line_externals_def Let_def
      set_transformation_def add_mesh_def remove_mesh_def erase_def)

text \<open>
  C9. After every sequence of \<open>init\<close>, \<open>add_mesh\<close>, \<open>remove_mesh\<close> and
  \<open>set_transformation\<close> calls that runs without undefined behaviour (every position given
  to \<open>set_transformation\<close> in range), starting from the freshly constructed object, the
  mesh pointers, the trees and the closedness flags have the same length, and with the
  cache compiled in so have the boxes and their validity bits.
\<close>

theorem parallel_stores_same_length:
  assumes "run_operations cache E xs empty_registry = Inr st"
  shows "length (m_aabb_trees st) = length (m_triangle_mesh_ptrs st) \<and>
         length (m_is_closed st) = length (m_triangle_mesh_ptrs st) \<and>
         (cache \<longrightarrow>
            length (m_bboxes st) = length (m_triangle_mesh_ptrs st) \<and>
            length (m_bboxes_is_invalid st) = length (m_triangle_mesh_ptrs st))"
  using registry_inv_run_operations [OF registry_inv_empty assms]
  by (simp add: registry_inv_def stores_aligned_def)


theorem parallel_stores_same_length_witness:
  "run_operations True line_externals example_calls empty_registry = Inr example_final \<and>
   length (m_aabb_trees example_final) = length (m_triangle_mesh_ptrs example_final) \<and>
   length (m_is_closed example_final) = length (m_triangle_mesh_ptrs example_final) \<and>
   length (m_bboxes example_final) = length (m_triangle_mesh_ptrs example_final) \<and>
   length (m_bboxes_is_invalid example_final) = length (m_triangle_mesh_ptrs example_final)"
  using run_example_calls parallel_stores_same_length [OF run_example_calls]
  by simp

subsection \<open>C3: get\_all\_intersections\<close>

text \<open>
  C3. For an in-range position \<open>i\<close>, \<open>get_all_intersections\<close> returns without undefined
  behaviour; the positions it returns are exactly the \<open>k \<noteq> i\<close> whose tree reports overlap
  with the tree at \<open>i\<close>; they are listed in strictly ascending order, and \<open>i\<close> is not among
  them.
\<close>

theorem get_all_intersections_exact:
  assumes "registry_inv cache E st" and "i < length (m_triangle_mesh_ptrs st)"
  shows "\<exists>res st1. get_all_intersections cache E i st = Inr (res, st1) \<and>
           set res = {k. k < length (m_triangle_mesh_ptrs st) \<and> k \<noteq> i \<and>
                         reports_overlap cache E (m_aabb_trees st ! k) (m_aabb_trees st ! i)} \<and>
           sorted_wrt (<) res \<and> i \<notin> set res"
proof -
  from assms have n: "length (m_aabb_trees st) = length (m_triangle_mesh_ptrs st)"
    by (simp add: registry_inv_def stores_aligned_def)
  let ?res = "filter (\<lambda>k. k \<noteq> i \<and> reports_overlap cache E (m_aabb_trees st ! k) (m_aabb_trees st ! i))
                [0..<length (m_aabb_trees st)]"
  have "get_all_intersections cache E i st = Inr (?res, if cache then update_bboxes E st else st)"
    using assms n by (simp add: get_all_intersections_result)
  moreover have "set ?res = {k. k < length (m_triangle_mesh_ptrs st) \<and> k \<noteq> i \<and>
                         reports_overlap cache E (m_aabb_trees st ! k) (m_aabb_trees st ! i)}"
    using n by auto
  moreover have "sorted_wrt (<) ?res"
    by (simp add: sorted_wrt_filter)
  moreover have "i \<notin> set ?res"
    by simp
  ultimately show ?thesis
    by blast
qed

theorem get_all_intersections_exact_witness:
  "registry_inv True line_externals (example_registry True) \<and>
   0 < length (m_triangle_mesh_ptrs (example_registry True)) \<and>
   (\<exists>res st1. get_all_intersections True line_externals 0 (example_registry True) = Inr (res, st1) \<and>
      set res = {k. k < length (m_triangle_mesh_ptrs (example_registry True)) \<and> k \<noteq> 0 \<and>
                    reports_overlap True line_externals (m_aabb_trees (example_registry True) ! k)
                      (m_aabb_trees (example_registry True) ! 0)} \<and>
      sorted_wrt (<) res \<and> 0 \<notin> set res)"
proof -
  have inv: "registry_inv True line_externals (example_registry True)"
    unfolding example_registry_def by (rule registry_inv_init)
  have len: "0 < length (m_triangle_mesh_ptrs (example_registry True))"
    by (simp add: length_example_registry)
  show ?thesis
    by (rule conjI [OF inv conjI [OF len get_all_intersections_exact [OF inv len]]])
qed

subsection \<open>C4: add\_mesh\<close>

text \<open>
  The header declares \<^verbatim>\<open>void add_mesh(const TriangleMesh& tm)\<close>: on the example scene the
  call does not return the position of the new entry, it returns nothing.
\<close>

theorem add_mesh_returns_no_position:
  "fst (add_mesh False line_externals (True, [5, 6], [5, 6]) (example_registry False)) \<noteq>
     Returned (length (m_triangle_mesh_ptrs (example_registry False)))"
  by (simp add: add_mesh_def Let_def)

text \<open>
  C4, as the code has it. In every registry state \<open>add_mesh\<close> returns nothing and appends
  exactly one entry at the end of every store: the mesh, a tree over it that carries the
  identity transformation, and the closedness computed from the mesh (with the cache, a
  default box marked invalid too). The new entry stands at the position that was the size
  of the registry before the call.
\<close>

theorem add_mesh_appends:
  "fst (add_mesh cache E tm st) = Void \<and>
   m_triangle_mesh_ptrs (snd (add_mesh cache E tm st)) = m_triangle_mesh_ptrs st @ [tm] \<and>
   m_aabb_trees (snd (add_mesh cache E tm st)) =
     m_aabb_trees st @ [\<lparr>tree_mesh = tm, transformation = identity E\<rparr>] \<and>
   m_is_closed (snd (add_mesh cache E tm st)) = m_is_closed st @ [is_closed E tm] \<and>
   m_bboxes (snd (add_mesh cache E tm st)) =
     (if cache then m_bboxes st @ [Bbox_3 E] else m_bboxes st) \<and>
   m_bboxes_is_invalid (snd (add_mesh cache E tm st)) =
     (if cache then m_bboxes_is_invalid st @ [True] else m_bboxes_is_invalid st) \<and>
   m_triangle_mesh_ptrs (snd (add_mesh cache E tm st)) ! length (m_triangle_mesh_ptrs st) = tm"
  by (simp add: add_mesh_def Let_def new_Tree_def)

subsection \<open>C5: remove\_mesh\<close>

lemma nth_erase_before: "q < p \<Longrightarrow> p < length xs \<Longrightarrow> erase p xs ! q = xs ! q"
  by (simp add: erase_def nth_append)

lemma nth_erase_after:
  assumes "p < q" and "q < length xs"
  shows "erase p xs ! (q - Suc 0) = xs ! q"
proof -
  from assms have "erase p xs ! (q - Suc 0) = drop (Suc p) xs ! (q - 1 - p)"
    by (auto simp add: erase_def nth_append)
  also from assms have "\<dots> = xs ! (Suc p + (q - 1 - p))"
    by (intro nth_drop) simp
  also from assms have "Suc p + (q - 1 - p) = q"
    by simp
  finally show ?thesis .
qed

lemmas nth_erase = nth_erase_before nth_erase_after

text \<open>
  C5. A position at or past the number of registered entries leaves the whole registry as
  it was. A position \<open>p\<close> in range removes one entry from each store: the entries before
  \<open>p\<close> stay where they are, and every entry formerly at a position \<open>q > p\<close> is found at
  \<open>q - 1\<close> with its mesh, its closedness flag and its tree (hence its transformation)
  unchanged.
\<close>

theorem remove_mesh_effect:
  "(length (m_triangle_mesh_ptrs st) \<le> p \<longrightarrow> remove_mesh cache p st = st) \<and>
   (stores_aligned cache st \<and> p < length (m_triangle_mesh_ptrs st) \<longrightarrow>
      length (m_triangle_mesh_ptrs (remove_mesh cache p st)) = length (m_triangle_mesh_ptrs st) - 1 \<and>
      length (m_aabb_trees (remove_mesh cache p st)) = length (m_aabb_trees st) - 1 \<and>
      length (m_is_closed (remove_mesh cache p st)) = length (m_is_closed st) - 1 \<and>
      (\<forall>q < p.
         m_triangle_mesh_ptrs (remove_mesh cache p st) ! q = m_triangle_mesh_ptrs st ! q \<and>
         m_aabb_trees (remove_mesh cache p st) ! q = m_aabb_trees st ! q \<and>
         m_is_closed (remove_mesh cache p st) ! q = m_is_closed st ! q) \<and>
      (\<forall>q. p < q \<and> q < length (m_triangle_mesh_ptrs st) \<longrightarrow>
         m_triangle_mesh_ptrs (remove_mesh cache p st) ! (q - 1) = m_triangle_mesh_ptrs st ! q \<and>
         m_aabb_trees (remove_mesh cache p st) ! (q - 1) = m_aabb_trees st ! q \<and>
         m_is_closed (remove_mesh cache p st) ! (q - 1) = m_is_closed st ! q))"
proof (intro conjI impI)
  assume "length (m_triangle_mesh_ptrs st) \<le> p"
  then show "remove_mesh cache p st = st"
    by (simp add: remove_mesh_def)
next
  assume a: "stores_aligned cache st \<and> p < length (m_triangle_mesh_ptrs st)"
  then have len: "p < length (m_triangle_mesh_ptrs st)" "p < length (m_aabb_trees st)"
    "p < length (m_is_closed st)"
    by (simp_all add: stores_aligned_def)
  have fields:
    "m_triangle_mesh_ptrs (remove_mesh cache p st) = erase p (m_triangle_mesh_ptrs st)"
    "m_aabb_trees (remove_mesh cache p st) = erase p (m_aabb_trees st)"
    "m_is_closed (remove_mesh cache p st) = erase p (m_is_closed st)"
    using len by (simp_all add: remove_mesh_def Let_def)
  show "length (m_triangle_mesh_ptrs (remove_mesh cache p st)) = length (m_triangle_mesh_ptrs st) - 1"
    "length (m_aabb_trees (remove_mesh cache p st)) = length (m_aabb_trees st) - 1"
    "length (m_is_closed (remove_mesh cache p st)) = length (m_is_closed st) - 1"
    using len by (simp_all add: fields length_erase)
  show "\<forall>q < p.
         m_triangle_mesh_ptrs (remove_mesh cache p st) ! q = m_triangle_mesh_ptrs st ! q \<and>
         m_aabb_trees (remove_mesh cache p st) ! q = m_aabb_trees st ! q \<and>
         m_is_closed (remove_mesh cache p st) ! q = m_is_closed st ! q"
    using len by (simp add: fields nth_erase)
  show "\<forall>q. p < q \<and> q < length (m_triangle_mesh_ptrs st) \<longrightarrow>
         m_triangle_mesh_ptrs (remove_mesh cache p st) ! (q - 1) = m_triangle_mesh_ptrs st ! q \<and>
         m_aabb_trees (remove_mesh cache p st) ! (q - 1) = m_aabb_trees st ! q \<and>
         m_is_closed (remove_mesh cache p st) ! (q - 1) = m_is_closed st ! q"
    using a by (simp add: fields nth_erase stores_aligned_def)
qed

theorem remove_mesh_effect_witness:
  "remove_mesh True 4 (example_registry True) = example_registry True \<and>
   stores_aligned True (example_registry True) \<and>
   1 < length (m_triangle_mesh_ptrs (example_registry True)) \<and>
   length (m_triangle_mesh_ptrs (remove_mesh True 1 (example_registry True))) = 3 \<and>
   m_triangle_mesh_ptrs (remove_mesh True 1 (example_registry True)) ! 0 =
     m_triangle_mesh_ptrs (example_registry True) ! 0 \<and>
   m_aabb_trees (remove_mesh True 1 (example_registry True)) ! 2 =
     m_aabb_trees (example_registry True) ! 3 \<and>
   m_is_closed (remove_mesh True 1 (example_registry True)) ! 1 =
     m_is_closed (example_registry True) ! 2"
proof -
  have al: "stores_aligned True (example_registry True)"
    using example_registry_inv [of True] by (simp add: registry_inv_def)
  have len: "1 < length (m_triangle_mesh_ptrs (example_registry True))"
    by (simp add: length_example_registry)
  note out = remove_mesh_effect [of "example_registry True" 4 True]
  note inr = remove_mesh_effect [of "example_registry True" 1 True]
  from out have "remove_mesh True 4 (example_registry True) = example_registry True"
    by (simp add: length_example_registry)
  moreover from inr al len
  have "length (m_triangle_mesh_ptrs (remove_mesh True 1 (example_registry True))) = 3"
    by (simp add: length_example_registry)
  moreover from inr al len
  have "m_triangle_mesh_ptrs (remove_mesh True 1 (example_registry True)) ! 0 =
          m_triangle_mesh_ptrs (example_registry True) ! 0"
    by simp
  moreover from inr al len
  have "\<forall>q. 1 < q \<and> q < 4 \<longrightarrow>
          m_aabb_trees (remove_mesh True 1 (example_registry True)) ! (q - 1) =
            m_aabb_trees (example_registry True) ! q \<and>
          m_is_closed (remove_mesh True 1 (example_registry True)) ! (q - 1) =
            m_is_closed (example_registry True) ! q"
    by (simp add: length_example_registry)
  then have "m_aabb_trees (remove_mesh True 1 (example_registry True)) ! 2 =
               m_aabb_trees (example_registry True) ! 3"
    and "m_is_closed (remove_mesh True 1 (example_registry True)) ! 1 =
               m_is_closed (example_registry True) ! 2"
    by (auto dest: spec [of _ 3] spec [of _ 2])
  ultimately show ?thesis
    using al len by simp
qed

subsection \<open>C7: the two convenience calls\<close>

text \<open>
  C7. For an in-range position \<open>i\<close> and a transformation \<open>T\<close>, \<open>set_transformation\<close>
  succeeds, and each of the two combined calls yields what the matching query yields on
  the state \<open>set_transformation\<close> leaves: the same returned sequence and the same final
  registry (or the same undefined behaviour).
\<close>

theorem set_transformation_then_query:
  assumes "stores_aligned cache st" and "i < length (m_triangle_mesh_ptrs st)"
  shows "\<exists>st1. set_transformation cache i T st = Inr st1 \<and>
           set_transformation_and_get_all_intersections cache E i T st =
             get_all_intersections cache E i st1 \<and>
           set_transformation_and_get_all_intersections_and_inclusions cache E i T st =
             get_all_intersections_and_inclusions cache E i st1"
proof -
  from assms have "\<exists>st1. set_transformation cache i T st = Inr st1"
    by (simp add: set_transformation_def stores_aligned_def Let_def)
  then obtain st1 where "set_transformation cache i T st = Inr st1" ..
  then show ?thesis
    by (simp add: set_transformation_and_get_all_intersections_def
        set_transformation_and_get_all_intersections_and_inclusions_def)
qed

theorem set_transformation_then_query_witness:
  "stores_aligned True (example_registry True) \<and>
   2 < length (m_triangle_mesh_ptrs (example_registry True)) \<and>
   (\<exists>st1. set_transformation True 2 5 (example_registry True) = Inr st1 \<and>
      set_transformation_and_get_all_intersections True line_externals 2 5 (example_registry True) =
        get_all_intersections True line_externals 2 st1 \<and>
      set_transformation_and_get_all_intersections_and_inclusions True line_externals 2 5
          (example_registry True) =
        get_all_intersections_and_inclusions True line_externals 2 st1)"
proof -
  have al: "stores_aligned True (example_registry True)"
    using example_registry_inv [of True] by (simp add: registry_inv_def)
  have len: "2 < length (m_triangle_mesh_ptrs (example_registry True))"
    by (simp add: length_example_registry)
  show ?thesis
    by (rule conjI [OF al conjI [OF len set_transformation_then_query [OF al len]]])
qed

subsection \<open>C2: nesting is reported only without overlap, and needs a closed surface\<close>

text \<open>
  C2. When \<open>get_all_intersections_and_inclusions i\<close> returns for a registered position \<open>i\<close>,
  so does \<open>get_all_intersections i\<close>, and: every pair \<open>(j, true)\<close> of the first result has
  \<open>j\<close> outside the second result, a false \<open>do_intersect\<close> test, and a closedness flag set
  for \<open>i\<close> or for \<open>j\<close>; the pairs \<open>(j, false)\<close> are exactly the positions of the second
  result; so every position \<open>j \<noteq> i\<close> whose overlap test is true appears as \<open>(j, false)\<close>.
\<close>

theorem nesting_only_without_overlap:
  assumes "registry_inv cache E st"
    and "i < length (m_triangle_mesh_ptrs st)"
    and "get_all_intersections_and_inclusions cache E i st = Inr (res, st1)"
  shows "\<exists>res2 st2. get_all_intersections cache E i st = Inr (res2, st2) \<and>
           (\<forall>j. (j, True) \<in> set res \<longrightarrow>
                  j \<notin> set res2 \<and>
                  \<not> do_intersect E (m_aabb_trees st ! j) (m_aabb_trees st ! i) \<and>
                  (m_is_closed st ! i \<or> m_is_closed st ! j)) \<and>
           (\<forall>j. (j, False) \<in> set res \<longleftrightarrow> j \<in> set res2) \<and>
           (\<forall>j < length (m_triangle_mesh_ptrs st).
              j \<noteq> i \<and> reports_overlap cache E (m_aabb_trees st ! j) (m_aabb_trees st ! i) \<longrightarrow>
              (j, False) \<in> set res)"
proof -
  let ?st = "if cache then update_bboxes E st else st"
  let ?res2 = "filter (\<lambda>k. k \<noteq> i \<and>
                 reports_overlap cache E (m_aabb_trees st ! k) (m_aabb_trees st ! i))
                 [0..<length (m_aabb_trees st)]"
  from assms(1) have n: "length (m_aabb_trees st) = length (m_triangle_mesh_ptrs st)"
    by (simp add: registry_inv_def stores_aligned_def)
  with assms have i: "i < length (m_aabb_trees st)"
    by simp
  note R = inclusions_result [OF assms(1) i assms(3)]
  have q2: "get_all_intersections cache E i st = Inr (?res2, ?st)"
    by (rule get_all_intersections_result [OF assms(1) i])
  have round: "\<And>j. j < length (m_aabb_trees st) \<Longrightarrow>
      \<exists>xs. round_result cache E ?st i j = Inr xs \<and>
        ((j, False) \<in> set xs \<longleftrightarrow>
           j \<noteq> i \<and> reports_overlap cache E (m_aabb_trees st ! j) (m_aabb_trees st ! i)) \<and>
        ((j, True) \<in> set xs \<longrightarrow>
           j \<noteq> i \<and> \<not> reports_overlap cache E (m_aabb_trees st ! j) (m_aabb_trees st ! i) \<and>
           \<not> do_intersect E (m_aabb_trees st ! j) (m_aabb_trees st ! i) \<and>
           nesting_probes E st i j = Inr True)"
  proof -
    fix j
    assume j: "j < length (m_aabb_trees st)"
    with R(1) obtain xs where xs: "round_result cache E ?st i j = Inr xs"
      by blast
    with round_result_refreshed [OF assms(1) i j]
    have "((j, False) \<in> set xs \<longleftrightarrow>
           j \<noteq> i \<and> reports_overlap cache E (m_aabb_trees st ! j) (m_aabb_trees st ! i)) \<and>
        ((j, True) \<in> set xs \<longrightarrow>
           j \<noteq> i \<and> \<not> reports_overlap cache E (m_aabb_trees st ! j) (m_aabb_trees st ! i) \<and>
           \<not> do_intersect E (m_aabb_trees st ! j) (m_aabb_trees st ! i) \<and>
           nesting_probes E st i j = Inr True)"
      by (cases "nesting_probes E st i j")
        (auto simp add: reports_overlap_def split: if_splits)
    with xs show "\<exists>xs. round_result cache E ?st i j = Inr xs \<and>
        ((j, False) \<in> set xs \<longleftrightarrow>
           j \<noteq> i \<and> reports_overlap cache E (m_aabb_trees st ! j) (m_aabb_trees st ! i)) \<and>
        ((j, True) \<in> set xs \<longrightarrow>
           j \<noteq> i \<and> \<not> reports_overlap cache E (m_aabb_trees st ! j) (m_aabb_trees st ! i) \<and>
           \<not> do_intersect E (m_aabb_trees st ! j) (m_aabb_trees st ! i) \<and>
           nesting_probes E st i j = Inr True)"
      by blast
  qed
  have a: "\<forall>j. (j, True) \<in> set res \<longrightarrow>
                  j \<notin> set ?res2 \<and>
                  \<not> do_intersect E (m_aabb_trees st ! j) (m_aabb_trees st ! i) \<and>
                  (m_is_closed st ! i \<or> m_is_closed st ! j)"
  proof (intro allI impI)
    fix j
    assume "(j, True) \<in> set res"
    with R(2) [of j True] have j: "j < length (m_aabb_trees st)"
      and m: "(j, True) \<in> set (projr (round_result cache E ?st i j))"
      by simp_all
    from round [OF j] m
    have "\<not> reports_overlap cache E (m_aabb_trees st ! j) (m_aabb_trees st ! i)"
      and "\<not> do_intersect E (m_aabb_trees st ! j) (m_aabb_trees st ! i)"
      and "nesting_probes E st i j = Inr True"
      by auto
    with nesting_probes_Inr [of E st i j True]
    show "j \<notin> set ?res2 \<and>
          \<not> do_intersect E (m_aabb_trees st ! j) (m_aabb_trees st ! i) \<and>
          (m_is_closed st ! i \<or> m_is_closed st ! j)"
      by auto
  qed
  have b: "\<forall>j. (j, False) \<in> set res \<longleftrightarrow> j \<in> set ?res2"
  proof
    fix j
    show "(j, False) \<in> set res \<longleftrightarrow> j \<in> set ?res2"
    proof (cases "j < length (m_aabb_trees st)")
      case True
      from round [OF True] R(2) [of j False] True show ?thesis
        by auto
    next
      case False
      with R(2) [of j False] show ?thesis
        by simp
    qed
  qed
  from b n have c: "\<forall>j < length (m_triangle_mesh_ptrs st).
              j \<noteq> i \<and> reports_overlap cache E (m_aabb_trees st ! j) (m_aabb_trees st ! i) \<longrightarrow>
              (j, False) \<in> set res"
    by simp
  from q2 a b c show ?thesis
    by blast
qed

theorem nesting_only_without_overlap_witness:
  "registry_inv False line_externals (example_registry False) \<and>
   1 < length (m_triangle_mesh_ptrs (example_registry False)) \<and>
   get_all_intersections_and_inclusions False line_externals 1 (example_registry False) =
     Inr ([(0, True)], example_registry False) \<and>
   (\<exists>res2 st2. get_all_intersections False line_externals 1 (example_registry False) = Inr (res2, st2) \<and>
      (\<forall>j. (j, True) \<in> set [(0::nat, True)] \<longrightarrow>
             j \<notin> set res2 \<and>
             \<not> do_intersect line_externals (m_aabb_trees (example_registry False) ! j)
                 (m_aabb_trees (example_registry False) ! 1) \<and>
             (m_is_closed (example_registry False) ! 1 \<or> m_is_closed (example_registry False) ! j)) \<and>
      (\<forall>j. (j, False) \<in> set [(0::nat, True)] \<longleftrightarrow> j \<in> set res2) \<and>
      (\<forall>j < length (m_triangle_mesh_ptrs (example_registry False)).
         j \<noteq> 1 \<and> reports_overlap False line_externals (m_aabb_trees (example_registry False) ! j)
                     (m_aabb_trees (example_registry False) ! 1) \<longrightarrow>
         (j, False) \<in> set [(0::nat, True)]))"
proof -
  have h1: "registry_inv False line_externals (example_registry False)"
    by (rule example_registry_inv)
  have h2: "1 < length (m_triangle_mesh_ptrs (example_registry False))"
    by (simp add: length_example_registry)
  note h3 = example_inclusions_1
  show ?thesis
    by (rule conjI [OF h1 conjI [OF h2 conjI [OF h3 nesting_only_without_overlap [OF h1 h2 h3]]]])
qed

subsection \<open>C6: symmetry of get\_all\_intersections\<close>

text \<open>
  C6. In a registry state whose overlap test is symmetric, for in-range positions
  \<open>i \<noteq> j\<close>: \<open>j\<close> is in \<open>get_all_intersections i\<close> exactly when \<open>i\<close> is in
  \<open>get_all_intersections j\<close>, whether the second call is made on the same state or after
  the first. The overlap test is \<open>do_intersect\<close>; with the cache compiled in it is
  \<open>do_intersect\<close> behind the box test, and the symmetry assumed is that of the two together.
\<close>

theorem intersections_symmetric:
  assumes "registry_inv cache E st"
    and "i < length (m_triangle_mesh_ptrs st)" and "j < length (m_triangle_mesh_ptrs st)"
    and "i \<noteq> j"
    and "\<forall>a b. reports_overlap cache E a b = reports_overlap cache E b a"
  shows "\<exists>ri si rj sj rj2 sj2.
           get_all_intersections cache E i st = Inr (ri, si) \<and>
           get_all_intersections cache E j st = Inr (rj, sj) \<and>
           get_all_intersections cache E j si = Inr (rj2, sj2) \<and>
           (j \<in> set ri \<longleftrightarrow> i \<in> set rj) \<and> (j \<in> set ri \<longleftrightarrow> i \<in> set rj2)"
proof -
  let ?si = "if cache then update_bboxes E st else st"
  let ?ov = "\<lambda>a b. reports_overlap cache E (m_aabb_trees st ! a) (m_aabb_trees st ! b)"
  let ?r = "\<lambda>m. filter (\<lambda>k. k \<noteq> m \<and> ?ov k m) [0..<length (m_aabb_trees st)]"
  from assms(1) have n: "length (m_aabb_trees st) = length (m_triangle_mesh_ptrs st)"
    by (simp add: registry_inv_def stores_aligned_def)
  with assms have i: "i < length (m_aabb_trees st)" and j: "j < length (m_aabb_trees st)"
    by simp_all
  have inv: "registry_inv cache E ?si"
    using assms(1) by (cases cache) (simp_all add: registry_inv_update_bboxes)
  have qi: "get_all_intersections cache E i st = Inr (?r i, ?si)"
    by (rule get_all_intersections_result [OF assms(1) i])
  have qj: "get_all_intersections cache E j st = Inr (?r j, if cache then update_bboxes E st else st)"
    by (rule get_all_intersections_result [OF assms(1) j])
  have qj2: "get_all_intersections cache E j ?si =
           Inr (?r j, if cache then update_bboxes E ?si else ?si)"
    using get_all_intersections_result [OF inv, of j] j
    by (simp add: refreshed_fields)
  from assms(5) have "?ov j i \<longleftrightarrow> ?ov i j"
    by blast
  with i j assms(4) have "j \<in> set (?r i) \<longleftrightarrow> i \<in> set (?r j)"
    by auto
  with qi qj qj2 show ?thesis
    by blast
qed

theorem intersections_symmetric_witness:
  "registry_inv True line_externals (example_registry True) \<and>
   0 < length (m_triangle_mesh_ptrs (example_registry True)) \<and>
   2 < length (m_triangle_mesh_ptrs (example_registry True)) \<and>
   (0::nat) \<noteq> 2 \<and>
   (\<forall>a b. reports_overlap True line_externals a b = reports_overlap True line_externals b a) \<and>
   (\<exists>ri si rj sj rj2 sj2.
      get_all_intersections True line_externals 0 (example_registry True) = Inr (ri, si) \<and>
      get_all_intersections True line_externals 2 (example_registry True) = Inr (rj, sj) \<and>
      get_all_intersections True line_externals 2 si = Inr (rj2, sj2) \<and>
      (2 \<in> set ri \<longleftrightarrow> 0 \<in> set rj) \<and> (2 \<in> set ri \<longleftrightarrow> 0 \<in> set rj2))"
proof -
  have h1: "registry_inv True line_externals (example_registry True)"
    by (rule example_registry_inv)
  have h2: "0 < length (m_triangle_mesh_ptrs (example_registry True))"
    and h3: "2 < length (m_triangle_mesh_ptrs (example_registry True))"
    by (simp_all add: length_example_registry)
  have h4: "(0::nat) \<noteq> 2"
    by simp
  note h5 = line_reports_overlap_sym [of True]
  show ?thesis
    by (rule conjI [OF h1 conjI [OF h2 conjI [OF h3 conjI [OF h4 conjI [OF h5
          intersections_symmetric [OF h1 h2 h3 h4 h5]]]]]])
qed

subsection \<open>C10: the first vertex of a mesh without vertices\<close>

text \<open>
  C10. For an in-range position \<open>i\<close>, \<open>get_all_intersections_and_inclusions i\<close> is undefined
  exactly when some pair \<open>(i, k)\<close> reaches a closedness-guarded nesting probe whose mesh has
  no vertex: the pair is disjoint, and surface \<open>i\<close> is closed and mesh \<open>k\<close> is empty, or the
  reverse probe is reached with surface \<open>k\<close> closed and mesh \<open>i\<close> empty. The undefined
  behaviour is then the dereference of the begin of an empty vertex range. When every
  registered mesh has at least one vertex the query returns.
\<close>

theorem empty_vertex_range_undefined:
  assumes "registry_inv cache E st" and "i < length (m_triangle_mesh_ptrs st)"
  shows "(get_all_intersections_and_inclusions cache E i st = Inl e \<longleftrightarrow>
            e = Empty_range_dereferenced \<and>
            (\<exists>k < length (m_triangle_mesh_ptrs st). unguarded_probe cache E st i k)) \<and>
         ((\<forall>k < length (m_triangle_mesh_ptrs st). vertices E (m_triangle_mesh_ptrs st ! k) \<noteq> []) \<longrightarrow>
            (\<exists>res st1. get_all_intersections_and_inclusions cache E i st = Inr (res, st1)))"
proof -
  let ?st = "if cache then update_bboxes E st else st"
  let ?ks = "[0..<length (m_aabb_trees st)]"
  let ?q = "get_all_intersections_and_inclusions cache E i st"
  from assms(1) have n: "length (m_aabb_trees st) = length (m_triangle_mesh_ptrs st)"
    by (simp add: registry_inv_def stores_aligned_def)
  with assms have i: "i < length (m_aabb_trees st)"
    by simp
  then have i': "i < length (m_aabb_trees ?st)"
    by (simp add: refreshed_fields)
  have loop: "?q = (case inclusions_loop cache E ?st i ?ks [] of
                      Inl e \<Rightarrow> Inl e | Inr res \<Rightarrow> Inr (res, ?st))"
    by (simp add: get_all_intersections_and_inclusions_def Let_def refreshed_fields)
  have fwd: "\<And>e. ?q = Inl e \<Longrightarrow>
      e = Empty_range_dereferenced \<and> (\<exists>k < length (m_triangle_mesh_ptrs st). unguarded_probe cache E st i k)"
  proof -
    fix e
    assume "?q = Inl e"
    with loop have "inclusions_loop cache E ?st i ?ks [] = Inl e"
      by (cases "inclusions_loop cache E ?st i ?ks []") (simp_all split del: if_split)
    from inclusions_loop_undefined [OF i' this]
    obtain k where k: "k < length (m_aabb_trees st)" and "round_result cache E ?st i k = Inl e"
      by auto
    with round_result_Inl [OF assms(1) i k] n
    show "e = Empty_range_dereferenced \<and>
          (\<exists>k < length (m_triangle_mesh_ptrs st). unguarded_probe cache E st i k)"
      by auto
  qed
  have bwd: "\<exists>k < length (m_triangle_mesh_ptrs st). unguarded_probe cache E st i k \<Longrightarrow>
      ?q = Inl Empty_range_dereferenced"
  proof -
    assume "\<exists>k < length (m_triangle_mesh_ptrs st). unguarded_probe cache E st i k"
    then obtain k where k: "k < length (m_aabb_trees st)" and u: "unguarded_probe cache E st i k"
      using n by auto
    with round_result_Inl [OF assms(1) i k]
    have bad: "round_result cache E ?st i k = Inl Empty_range_dereferenced"
      by simp
    show "?q = Inl Empty_range_dereferenced"
    proof (cases "inclusions_loop cache E ?st i ?ks []")
      case (Inl e)
      with loop have "?q = Inl e"
        by simp
      with fwd [of e] show ?thesis
        by simp
    next
      case (Inr r)
      from inclusions_loop_Inr [OF i' Inr] k
      have "\<exists>xs. round_result cache E ?st i k = Inr xs"
        by simp
      with bad show ?thesis
        by simp
    qed
  qed
  have total: "(\<forall>k < length (m_triangle_mesh_ptrs st). vertices E (m_triangle_mesh_ptrs st ! k) \<noteq> []) \<Longrightarrow>
      \<exists>res st1. ?q = Inr (res, st1)"
  proof -
    assume v: "\<forall>k < length (m_triangle_mesh_ptrs st). vertices E (m_triangle_mesh_ptrs st ! k) \<noteq> []"
    show "\<exists>res st1. ?q = Inr (res, st1)"
    proof (cases ?q)
      case (Inl e)
      from fwd [OF Inl] v assms(2) show ?thesis
        by (auto simp add: unguarded_probe_def)
    next
      case (Inr p)
      then show ?thesis
        by (cases p) simp
    qed
  qed
  from fwd bwd total show ?thesis
    by blast
qed

theorem empty_vertex_range_undefined_witness:
  "registry_inv False line_externals hollow_registry \<and>
   0 < length (m_triangle_mesh_ptrs hollow_registry) \<and>
   get_all_intersections_and_inclusions False line_externals 0 hollow_registry =
     Inl Empty_range_dereferenced \<and>
   registry_inv False line_externals (example_registry False) \<and>
   3 < length (m_triangle_mesh_ptrs (example_registry False)) \<and>
   (\<exists>res st1. get_all_intersections_and_inclusions False line_externals 3 (example_registry False) =
      Inr (res, st1))"
proof -
  have h1: "registry_inv False line_externals hollow_registry"
    unfolding hollow_registry_def by (rule registry_inv_init)
  have h2: "0 < length (m_triangle_mesh_ptrs hollow_registry)"
    by (simp add: hollow_fields)
  have "unguarded_probe False line_externals hollow_registry 0 1"
    by (simp add: unguarded_probe_def hollow_fields line_simps)
  then have "\<exists>k < length (m_triangle_mesh_ptrs hollow_registry).
      unguarded_probe False line_externals hollow_registry 0 k"
    by (auto simp add: hollow_fields intro: exI [of _ 1])
  with empty_vertex_range_undefined [OF h1 h2, of Empty_range_dereferenced]
  have c1: "get_all_intersections_and_inclusions False line_externals 0 hollow_registry =
     Inl Empty_range_dereferenced"
    by blast
  have h3: "registry_inv False line_externals (example_registry False)"
    by (rule example_registry_inv)
  have h4: "3 < length (m_triangle_mesh_ptrs (example_registry False))"
    by (simp add: length_example_registry)
  have "list_all (\<lambda>tm. vertices line_externals tm \<noteq> []) example_meshes"
    by (simp add: example_meshes_def line_externals_def)
  then have "\<forall>k < length (m_triangle_mesh_ptrs (example_registry False)).
      vertices line_externals (m_triangle_mesh_ptrs (example_registry False) ! k) \<noteq> []"
    by (simp add: example_trees list_all_length)
  with empty_vertex_range_undefined [OF h3 h4, of Empty_range_dereferenced]
  have c2: "\<exists>res st1. get_all_intersections_and_inclusions False line_externals 3 (example_registry False) =
      Inr (res, st1)"
    by blast
  show ?thesis
    by (rule conjI [OF h1 conjI [OF h2 conjI [OF c1 conjI [OF h3 conjI [OF h4 c2]]]]])
qed

subsection \<open>C1: the nesting probes of a disjoint pair\<close>

text \<open>
  C1. Let \<open>i\<close> and \<open>k \<noteq> i\<close> be registered positions, and let a call
  \<open>get_all_intersections_and_inclusions i\<close> that returns reach the \<open>do_intersect\<close> test
  for \<open>k\<close> and find it false. Then \<open>(k, true)\<close> is in the result exactly when surface \<open>i\<close>
  is closed and the side-of oracle of the tree at \<open>i\<close> puts the point of the first vertex
  of mesh \<open>k\<close>, mapped by the transformation of the tree at \<open>k\<close>, on the bounded side, or
  surface \<open>k\<close> is closed and the side-of oracle of the tree at \<open>k\<close> puts the point of the
  first vertex of mesh \<open>i\<close>, mapped by the transformation of the tree at \<open>i\<close>, on the
  bounded side. Only \<open>ON_BOUNDED_SIDE\<close> counts. The pair is never reported as
  \<open>(k, false)\<close>, so it is absent when neither probe reports inside, and no position is
  reported twice: after a first probe that reports inside, the reverse probe adds nothing.
  In the scene with the moved mesh the first vertex of mesh 1 is outside segment 0 where
  it was registered and inside once mapped by the transformation of its tree.
\<close>

theorem nesting_of_disjoint_pair:
  assumes "registry_inv cache E st"
    and "i < length (m_triangle_mesh_ptrs st)" and "k < length (m_triangle_mesh_ptrs st)"
    and "k \<noteq> i"
    and "get_all_intersections_and_inclusions cache E i st = Inr (res, st1)"
    and "cache \<longrightarrow> do_overlap E (get_tree_bbox E (m_aabb_trees st ! k))
                     (get_tree_bbox E (m_aabb_trees st ! i))"
    and "\<not> do_intersect E (m_aabb_trees st ! k) (m_aabb_trees st ! i)"
  shows "((k, True) \<in> set res \<longleftrightarrow>
            (m_is_closed st ! i \<and>
             (\<exists>v vs. vertices E (m_triangle_mesh_ptrs st ! k) = v # vs \<and>
                Side_of_tm E (m_aabb_trees st ! i)
                  (transform E (transformation (m_aabb_trees st ! k))
                     (vertex_point E (m_triangle_mesh_ptrs st ! k) v)) = ON_BOUNDED_SIDE)) \<or>
            (m_is_closed st ! k \<and>
             (\<exists>v vs. vertices E (m_triangle_mesh_ptrs st ! i) = v # vs \<and>
                Side_of_tm E (m_aabb_trees st ! k)
                  (transform E (transformation (m_aabb_trees st ! i))
                     (vertex_point E (m_triangle_mesh_ptrs st ! i) v)) = ON_BOUNDED_SIDE))) \<and>
         (k, False) \<notin> set res \<and> distinct (map fst res)"
proof -
  let ?st = "if cache then update_bboxes E st else st"
  from assms(1) have n: "length (m_aabb_trees st) = length (m_triangle_mesh_ptrs st)"
    by (simp add: registry_inv_def stores_aligned_def)
  with assms have i: "i < length (m_aabb_trees st)" and k: "k < length (m_aabb_trees st)"
    by simp_all
  note R = inclusions_result [OF assms(1) i assms(5)]
  from R(1) k obtain xs where xs: "round_result cache E ?st i k = Inr xs"
    by blast
  with assms(4,6,7) round_result_refreshed [OF assms(1) i k]
  obtain b where b: "nesting_probes E st i k = Inr b" and xs_eq: "xs = (if b then [(k, True)] else [])"
    by (cases "nesting_probes E st i k") (auto simp add: reports_overlap_def)
  have "(k, True) \<in> set res \<longleftrightarrow> b"
    using R(2) [of k True] k xs xs_eq by simp
  moreover have "(k, False) \<notin> set res"
    using R(2) [of k False] k xs xs_eq by simp
  ultimately show ?thesis
    using nesting_probes_Inr [OF b] R(3)
    unfolding probe_bounded by simp
qed

theorem nesting_of_disjoint_pair_witness:
  "registry_inv True line_externals moved_registry \<and>
   0 < length (m_triangle_mesh_ptrs moved_registry) \<and>
   1 < length (m_triangle_mesh_ptrs moved_registry) \<and>
   (1::nat) \<noteq> 0 \<and>
   get_all_intersections_and_inclusions True line_externals 0 moved_registry =
     Inr ([(1, True)], update_bboxes line_externals moved_registry) \<and>
   do_overlap line_externals
     (get_tree_bbox line_externals (m_aabb_trees moved_registry ! 1))
     (get_tree_bbox line_externals (m_aabb_trees moved_registry ! 0)) \<and>
   \<not> do_intersect line_externals (m_aabb_trees moved_registry ! 1)
       (m_aabb_trees moved_registry ! 0) \<and>
   transformation (m_aabb_trees moved_registry ! 1) = - 20 \<and>
   Side_of_tm line_externals (m_aabb_trees moved_registry ! 0) 22 = ON_UNBOUNDED_SIDE \<and>
   ((1, True) \<in> set [(1::nat, True)] \<longleftrightarrow>
      (m_is_closed moved_registry ! 0 \<and>
       (\<exists>v vs. vertices line_externals (m_triangle_mesh_ptrs moved_registry ! 1) = v # vs \<and>
          Side_of_tm line_externals (m_aabb_trees moved_registry ! 0)
            (transform line_externals (transformation (m_aabb_trees moved_registry ! 1))
               (vertex_point line_externals (m_triangle_mesh_ptrs moved_registry ! 1) v)) =
          ON_BOUNDED_SIDE)) \<or>
      (m_is_closed moved_registry ! 1 \<and>
       (\<exists>v vs. vertices line_externals (m_triangle_mesh_ptrs moved_registry ! 0) = v # vs \<and>
          Side_of_tm line_externals (m_aabb_trees moved_registry ! 1)
            (transform line_externals (transformation (m_aabb_trees moved_registry ! 0))
               (vertex_point line_externals (m_triangle_mesh_ptrs moved_registry ! 0) v)) =
          ON_BOUNDED_SIDE))) \<and>
   (1, False) \<notin> set [(1::nat, True)] \<and>
   distinct (map fst [(1::nat, True)])"
proof -
  note h1 = moved_registry_inv
  have h2: "0 < length (m_triangle_mesh_ptrs moved_registry)"
    and h3: "1 < length (m_triangle_mesh_ptrs moved_registry)"
    by (simp_all add: moved_fields)
  have h4: "(1::nat) \<noteq> 0"
    by simp
  note h5 = moved_inclusions_0
  have h6: "do_overlap line_externals
     (get_tree_bbox line_externals (m_aabb_trees moved_registry ! 1))
     (get_tree_bbox line_externals (m_aabb_trees moved_registry ! 0))"
    by (simp add: moved_fields line_simps)
  have h7: "\<not> do_intersect line_externals (m_aabb_trees moved_registry ! 1)
       (m_aabb_trees moved_registry ! 0)"
    by (simp add: moved_fields line_simps)
  have e1: "transformation (m_aabb_trees moved_registry ! 1) = - 20"
    by (simp add: moved_fields)
  have e2: "Side_of_tm line_externals (m_aabb_trees moved_registry ! 0) 22 = ON_UNBOUNDED_SIDE"
    by (simp add: moved_fields line_simps)
  from h6 have h6': "True \<longrightarrow> do_overlap line_externals
     (get_tree_bbox line_externals (m_aabb_trees moved_registry ! 1))
     (get_tree_bbox line_externals (m_aabb_trees moved_registry ! 0))"
    by simp
  note t = nesting_of_disjoint_pair [OF h1 h2 h3 h4 h5 h6' h7]
  show ?thesis
    by (rule conjI [OF h1 conjI [OF h2 conjI [OF h3 conjI [OF h4 conjI [OF h5
          conjI [OF h6 conjI [OF h7 conjI [OF e1 conjI [OF e2 t]]]]]]]]])
qed

subsection \<open>C8: the box cache and the query results\<close>

text \<open>
  The box pre-filter does not only skip the \<open>do_intersect\<close> test of a pair whose boxes do
  not overlap: its \<^verbatim>\<open>continue\<close> skips the nesting probes of that pair as well. In the
  scene with the isolated vertex, the first vertex of mesh 1 lies inside the closed segment 0,
  while the faces of mesh 1, and so its box, lie far away. The box filter is sound for the
  overlap test, yet without the cache the query at position 0 reports \<open>(1, true)\<close>, and
  with the cache it reports nothing.
\<close>

theorem box_cache_hides_nesting:
  "box_filter_sound line_externals \<and>
   run_calls True line_externals [Mutation (Init stray_meshes)] empty_registry =
     Inr (stray_registry True) \<and>
   run_calls False line_externals [Mutation (Init stray_meshes)] empty_registry =
     Inr (stray_registry False) \<and>
   0 < length (m_triangle_mesh_ptrs (stray_registry False)) \<and>
   get_all_intersections_and_inclusions False line_externals 0 (stray_registry False) =
     Inr ([(1, True)], stray_registry False) \<and>
   get_all_intersections_and_inclusions True line_externals 0 (stray_registry True) =
     Inr ([], update_bboxes line_externals (stray_registry True))"
proof -
  have r1: "run_calls True line_externals [Mutation (Init stray_meshes)] empty_registry =
     Inr (stray_registry True)"
    unfolding stray_registry_def by (rule run_calls_init)
  have r2: "run_calls False line_externals [Mutation (Init stray_meshes)] empty_registry =
     Inr (stray_registry False)"
    unfolding stray_registry_def by (rule run_calls_init)
  have len: "0 < length (m_triangle_mesh_ptrs (stray_registry False))"
    by (simp add: stray_fields)
  have q1: "get_all_intersections_and_inclusions False line_externals 0 (stray_registry False) =
     Inr ([(1, True)], stray_registry False)"
    by (simp add: get_all_intersections_and_inclusions_def stray_fields nesting_probes_def
        reverse_probe_def probe_def first_vertex_point_def line_simps)
  have q2: "get_all_intersections_and_inclusions True line_externals 0 (stray_registry True) =
     Inr ([], update_bboxes line_externals (stray_registry True))"
    by (simp add: get_all_intersections_and_inclusions_def Let_def update_bboxes_fields stray_boxes
        stray_fields)
      (simp add: line_externals_def line_overlap_def)
  show ?thesis
    by (rule conjI [OF line_box_filter_sound conjI [OF r1 conjI [OF r2 conjI [OF len
          conjI [OF q1 q2]]]]])
qed

text \<open>
  C8, as the code has it. Take the states that the same sequence of calls reaches with the
  cache compiled in and compiled out, where a call is \<open>init\<close>, \<open>add_mesh\<close>,
  \<open>remove_mesh\<close>, \<open>set_transformation\<close> or one of the two queries (so the cached boxes may
  be valid when a mesh is moved or the final query starts); an in-range position \<open>i\<close>; and
  a box pre-filter that is sound for the overlap test. Then \<open>get_all_intersections i\<close>
  returns, with the same sequence, in both builds. If moreover, for every pair that the box
  test rejects at \<open>i\<close>, the nesting probes the closedness flags ask for read the first
  vertex of a mesh that has one and none reports inside, then
  \<open>get_all_intersections_and_inclusions i\<close> has the same outcome in both builds: the same
  sequence, or undefined behaviour in both.
\<close>

theorem box_cache_invisible:
  assumes "run_calls True E cs empty_registry = Inr sc"
    and "run_calls False E cs empty_registry = Inr sn"
    and "i < length (m_triangle_mesh_ptrs sn)"
    and "box_filter_sound E"
  shows "(\<exists>r s1 s2. get_all_intersections True E i sc = Inr (r, s1) \<and>
                    get_all_intersections False E i sn = Inr (r, s2)) \<and>
         (box_disjoint_pairs_not_nested E sn i \<longrightarrow>
            map_sum id fst (get_all_intersections_and_inclusions True E i sc) =
            map_sum id fst (get_all_intersections_and_inclusions False E i sn))"
proof -
  let ?n = "length (m_aabb_trees sn)"
  have same: "same_entries sc sn"
    by (rule same_entries_run_calls [OF _ assms(1,2)]) (simp add: same_entries_def)
  have invc: "registry_inv True E sc"
    by (rule registry_inv_run_calls [OF registry_inv_empty assms(1)])
  have invn: "registry_inv False E sn"
    by (rule registry_inv_run_calls [OF registry_inv_empty assms(2)])
  from same have trees: "m_aabb_trees sc = m_aabb_trees sn"
    by (simp add: same_entries_def)
  from invn assms(3) have i: "i < ?n"
    by (simp add: registry_inv_def stores_aligned_def)
  then have ic: "i < length (m_aabb_trees sc)"
    by (simp add: trees)
  have ov: "reports_overlap True E a b = reports_overlap False E a b" for a b
    using assms(4) by (auto simp add: reports_overlap_def box_filter_sound_def)
  have "get_all_intersections True E i sc =
          Inr (filter (\<lambda>k. k \<noteq> i \<and> reports_overlap False E (m_aabb_trees sn ! k) (m_aabb_trees sn ! i))
                 [0..<?n], update_bboxes E sc)"
    using get_all_intersections_result [OF invc ic] by (simp add: trees ov)
  moreover have "get_all_intersections False E i sn =
          Inr (filter (\<lambda>k. k \<noteq> i \<and> reports_overlap False E (m_aabb_trees sn ! k) (m_aabb_trees sn ! i))
                 [0..<?n], sn)"
    using get_all_intersections_result [OF invn i] by simp
  ultimately have first: "\<exists>r s1 s2. get_all_intersections True E i sc = Inr (r, s1) \<and>
                    get_all_intersections False E i sn = Inr (r, s2)"
    by blast
  have second: "map_sum id fst (get_all_intersections_and_inclusions True E i sc) =
            map_sum id fst (get_all_intersections_and_inclusions False E i sn)"
    if nn: "box_disjoint_pairs_not_nested E sn i"
  proof -
    have rounds: "round_result True E (update_bboxes E sc) i k = round_result False E sn i k"
      if k: "k < ?n" for k
    proof -
      from k have kc: "k < length (m_aabb_trees sc)"
        by (simp add: trees)
      have c: "round_result True E (update_bboxes E sc) i k =
           (if k = i \<or> \<not> do_overlap E (get_tree_bbox E (m_aabb_trees sn ! k))
                                   (get_tree_bbox E (m_aabb_trees sn ! i))
            then Inr [] else round_result False E sn i k)"
        using round_result_cached [OF invc ic kc] same_entries_round_result [OF same, of E i k]
        by (simp add: trees)
      show ?thesis
      proof (cases "k = i")
        case True
        then show ?thesis
          by (simp add: c round_result_def)
      next
        case False
        show ?thesis
        proof (cases "do_overlap E (get_tree_bbox E (m_aabb_trees sn ! k))
                                   (get_tree_bbox E (m_aabb_trees sn ! i))")
          case True
          with False show ?thesis
            by (simp add: c)
        next
          case no: False
          with assms(4) have ni: "\<not> do_intersect E (m_aabb_trees sn ! k) (m_aabb_trees sn ! i)"
            by (simp add: box_filter_sound_def)
          from nn k False no
          have "m_is_closed sn ! i \<longrightarrow>
                  vertices E (m_triangle_mesh_ptrs sn ! k) \<noteq> [] \<and> \<not> first_vertex_inside E sn i k"
            and "m_is_closed sn ! k \<longrightarrow>
                  vertices E (m_triangle_mesh_ptrs sn ! i) \<noteq> [] \<and> \<not> first_vertex_inside E sn k i"
            unfolding box_disjoint_pairs_not_nested_iff by blast+
          from nesting_probes_none [OF this] False ni
          have "round_result False E sn i k = Inr []"
            by (simp add: round_result_def)
          with no show ?thesis
            by (simp add: c)
        qed
      qed
    qed
    have ic': "i < length (m_aabb_trees (update_bboxes E sc))"
      using ic by (simp add: update_bboxes_fields)
    have "inclusions_loop True E (update_bboxes E sc) i [0..<?n] [] =
          inclusions_loop False E sn i [0..<?n] []"
      by (rule inclusions_loop_cong [OF ic' i]) (simp add: rounds)
    then show ?thesis
      by (cases "inclusions_loop False E sn i [0..<?n] []")
        (simp_all add: get_all_intersections_and_inclusions_def Let_def update_bboxes_fields trees)
  qed
  from first second show ?thesis
    by blast
qed

theorem box_cache_invisible_witness:
  "run_calls True line_externals warm_calls empty_registry = Inr (warm_registry True) \<and>
   run_calls False line_externals warm_calls empty_registry = Inr (warm_registry False) \<and>
   0 < length (m_triangle_mesh_ptrs (warm_registry False)) \<and>
   box_filter_sound line_externals \<and>
   box_disjoint_pairs_not_nested line_externals (warm_registry False) 0 \<and>
   m_bboxes_is_invalid (warm_registry True) = [False, False, False, True] \<and>
   (\<exists>r s1 s2. get_all_intersections True line_externals 0 (warm_registry True) = Inr (r, s1) \<and>
      get_all_intersections False line_externals 0 (warm_registry False) = Inr (r, s2)) \<and>
   map_sum id fst (get_all_intersections_and_inclusions False line_externals 0 (warm_registry False)) =
     Inr [(1, True), (2, False), (3, False)] \<and>
   map_sum id fst (get_all_intersections_and_inclusions True line_externals 0 (warm_registry True)) =
     Inr [(1, True), (2, False), (3, False)]"
proof -
  note h1 = run_warm_calls(1)
  note h2 = run_warm_calls(2)
  have h3: "0 < length (m_triangle_mesh_ptrs (warm_registry False))"
    by (simp add: warm_fields)
  note h4 = line_box_filter_sound
  note h5 = warm_not_nested
  have e0: "m_bboxes_is_invalid (warm_registry True) = [False, False, False, True]"
    by (simp add: warm_registry_def)
  note e1 = warm_inclusions_uncached
  note t = box_cache_invisible [OF h1 h2 h3 h4]
  from t have c1: "\<exists>r s1 s2.
      get_all_intersections True line_externals 0 (warm_registry True) = Inr (r, s1) \<and>
      get_all_intersections False line_externals 0 (warm_registry False) = Inr (r, s2)"
    by (rule conjunct1)
  from t h5
  have eq: "map_sum id fst (get_all_intersections_and_inclusions True line_externals 0 (warm_registry True)) =
     map_sum id fst (get_all_intersections_and_inclusions False line_externals 0 (warm_registry False))"
    by blast
  have c2: "map_sum id fst (get_all_intersections_and_inclusions True line_externals 0 (warm_registry True)) =
     Inr [(1, True), (2, False), (3, False)]"
    by (rule trans [OF eq e1])
  show ?thesis
    by (rule conjI [OF h1 conjI [OF h2 conjI [OF h3 conjI [OF h4 conjI [OF h5
          conjI [OF e0 conjI [OF c1 conjI [OF e1 c2]]]]]]]])
qed

end
